theory Spec2Isabelle
  imports Complex_Main
begin

section \<open>Incremental inference metadata (schema/infer/inference-metadata.js)\<close>

subsection \<open>JavaScript values\<close>

text \<open>
  A JavaScript number is modelled by its numeric value: a rational for a finite
  double (the sign of zero is not kept), or one of the three special values.
  Numbers are only classified and stored as examples here, never computed with.
\<close>

datatype jsnumber = Finite rat | NaN | PosInfinity | NegInfinity

text \<open>
  Raw values as \<open>getType\<close> tells them apart: the primitives, \<open>Date\<close> and boxed
  \<open>String\<close> objects, arrays, and every other object by its own enumerable
  properties in \<open>Object.keys\<close> order. \<open>Function\<close>, \<open>Symbol\<close> and \<open>BigInt\<close> stand
  for the values whose \<open>typeof\<close> is none of the cases of the switch.
  Properties inherited from \<open>Object.prototype\<close> are not modelled.
\<close>

datatype jsval =
    Undefined
  | Null
  | Number jsnumber
  | Str string
  | Bool bool
  | DateObj int
  | StringObj string
  | Arr "jsval list"
  | Obj "(string \<times> jsval) list"
  | Function
  | Symbol
  | BigInt int

text \<open>
  The two things the module takes from its host and from \<open>../types/date\<close>, which
  are not part of this file: the date recogniser \<open>looksLikeADate\<close>, and the
  conversion of a value that is not a primitive string to a property key
  (\<open>nodes[nodeId]\<close> with a \<open>nodeId\<close> that is not a string).
\<close>

record host =
  looksLikeADate :: "string \<Rightarrow> bool"
  toPropertyKey :: "jsval \<Rightarrow> string"

text \<open>
  Modelled from the spec: \<open>is32BitInteger\<close> (\<open>./is-32-bit-integer\<close>) is not among
  the sources; the spec says a number is an \<open>int\<close> when its value is exactly
  representable as a 32-bit signed integer.
\<close>

fun is32BitInteger :: "jsnumber \<Rightarrow> bool" where
  "is32BitInteger (Finite q) =
     (of_int \<lfloor>q\<rfloor> = q \<and> - (2 ^ 31) \<le> \<lfloor>q\<rfloor> \<and> \<lfloor>q\<rfloor> < 2 ^ 31)"
| "is32BitInteger NaN = False"
| "is32BitInteger PosInfinity = False"
| "is32BitInteger NegInfinity = False"

subsection \<open>The type classifier\<close>

text \<open>
  The eight tags a descriptor can hold. The ninth result of \<open>getType\<close>, the
  string \<open>null\<close>, is \<open>None\<close>: it is never stored.
\<close>

datatype typeName =
  TInt | TFloat | TDate | TString | TBoolean | TArray | TListOfUnion | TObject

text \<open>\<open>key.includes(s)\<close>: \<open>s\<close> occurs in \<open>key\<close> as a contiguous substring.\<close>

fun str_includes :: "string \<Rightarrow> string \<Rightarrow> bool" where
  "str_includes [] s = (s = [])"
| "str_includes (c # cs) s = (take (length s) (c # cs) = s \<or> str_includes cs s)"

fun getType :: "host \<Rightarrow> jsval \<Rightarrow> string \<Rightarrow> typeName option" where
  "getType h (Number x) key = (if is32BitInteger x then Some TInt else Some TFloat)"
| "getType h (Str s) key = (if looksLikeADate h s then Some TDate else Some TString)"
| "getType h (Bool b) key = Some TBoolean"
| "getType h Null key = None"
| "getType h (DateObj t) key = Some TDate"
| "getType h (StringObj s) key = Some TString"
| "getType h (Arr xs) key =
     (if length xs = 0 then None
      else if str_includes key ''___NODE'' then Some TListOfUnion else Some TArray)"
| "getType h (Obj kvs) key = (if length (map fst kvs) = 0 then None else Some TObject)"
| "getType h Undefined key = None"
| "getType h Function key = None"
| "getType h Symbol key = None"
| "getType h (BigInt n) key = None"

subsection \<open>Objects with string keys\<close>

text \<open>
  An object built by the module (\<open>fieldMap\<close>, \<open>props\<close>, \<open>nodes\<close>, an example
  object, the groups of \<open>groupBy\<close>) is the list of its own properties in the
  order \<open>Object.keys\<close> gives them: the keys that are array indices (canonical
  decimal numerals below \<open>2^32 - 1\<close>) in ascending order first, then the other
  keys in the order of their creation.
\<close>

type_synonym 'v jsobject = "(string \<times> 'v) list"

definition isDigit :: "char \<Rightarrow> bool" where
  "isDigit c = (48 \<le> (of_char c :: nat) \<and> (of_char c :: nat) \<le> 57)"

definition decimal :: "string \<Rightarrow> nat" where
  "decimal s = foldl (\<lambda>n c. 10 * n + ((of_char c :: nat) - 48)) 0 s"

definition arrayIndex :: "string \<Rightarrow> nat option" where
  "arrayIndex s =
     (if s \<noteq> [] \<and> list_all isDigit s \<and> (s = ''0'' \<or> hd s \<noteq> CHR ''0'')
         \<and> decimal s < 2 ^ 32 - 1
      then Some (decimal s) else None)"

text \<open>
  \<open>obj[k]\<close>: the value of an own property, \<open>None\<close> for \<open>undefined\<close>. Where the
  object has no own property \<open>k\<close> and \<open>k\<close> is the name of a member of
  \<open>Object.prototype\<close> (\<open>constructor\<close>, \<open>toString\<close>, \<open>__proto__\<close>, ...), the source
  reads the inherited member instead; such names are told apart below
  (\<open>objectPrototypeNames\<close>) and are not covered by this reading.
\<close>

fun getProperty :: "'v jsobject \<Rightarrow> string \<Rightarrow> 'v option" where
  "getProperty [] k = None"
| "getProperty ((k', v') # rest) k = (if k' = k then Some v' else getProperty rest k)"

fun insertIndex :: "nat \<Rightarrow> string \<Rightarrow> 'v \<Rightarrow> 'v jsobject \<Rightarrow> 'v jsobject" where
  "insertIndex i k v [] = [(k, v)]"
| "insertIndex i k v ((k', v') # rest) =
     (case arrayIndex k' of
        Some j \<Rightarrow> if j < i then (k', v') # insertIndex i k v rest
                  else (k, v) # (k', v') # rest
      | None \<Rightarrow> (k, v) # (k', v') # rest)"

text \<open>\<open>obj[k] = v\<close>: an existing property keeps its place, a new one is created.\<close>

definition setProperty :: "'v jsobject \<Rightarrow> string \<Rightarrow> 'v \<Rightarrow> 'v jsobject" where
  "setProperty obj k v =
     (if k \<in> set (map fst obj)
      then map (\<lambda>(k', v'). if k' = k then (k', v) else (k', v')) obj
      else case arrayIndex k of
             None \<Rightarrow> obj @ [(k, v)]
           | Some i \<Rightarrow> insertIndex i k v obj)"

subsection \<open>Value descriptors\<close>

text \<open>
  One type-info per observed tag. The optional fields of the source are options
  (\<open>None\<close> is \<open>undefined\<close>); \<open>example\<close> is a raw value, \<open>Undefined\<close> until set;
  \<open>total_of\<close> and \<open>empty_of\<close> are the fields \<open>total\<close> and \<open>empty\<close>.
  \<open>NodeId\<close> is a string, as the header of the source declares it. A descriptor
  is keyed by tags, none of which is an array index, so its keys are in the
  order of their creation.
\<close>

datatype typeInfo = TypeInfo
  (total_of: int)
  (first: "string option")
  (example: jsval)
  (empty_of: "int option")
  (props: "(string \<times> (typeName \<times> typeInfo) list) list option")
  (item: "(typeName \<times> typeInfo) list option")
  (nodes: "(string \<times> int) list option")

type_synonym descriptor = "(typeName \<times> typeInfo) list"

text \<open>\<open>descriptor[typeName]\<close> and \<open>descriptor[typeName] = typeInfo\<close>.\<close>

fun getInfo :: "descriptor \<Rightarrow> typeName \<Rightarrow> typeInfo option" where
  "getInfo [] t = None"
| "getInfo ((t', ti) # rest) t = (if t' = t then Some ti else getInfo rest t)"

fun setInfo :: "descriptor \<Rightarrow> typeName \<Rightarrow> typeInfo \<Rightarrow> descriptor" where
  "setInfo [] t ti = [(t, ti)]"
| "setInfo ((t', ti') # rest) t ti =
     (if t' = t then (t, ti) # rest else (t', ti') # setInfo rest t ti)"

subsection \<open>The descriptor updater\<close>

datatype operation = Add | Del

text \<open>\<open>a || b\<close> on node ids: \<open>undefined\<close> and the empty string are falsy.\<close>

definition orElse :: "string option \<Rightarrow> string option \<Rightarrow> string option" where
  "orElse a b = (case a of None \<Rightarrow> b | Some s \<Rightarrow> if s = [] then b else a)"

text \<open>The key a \<open>listOfUnion\<close> element is stored under in \<open>nodes\<close>.\<close>

definition propertyKey :: "host \<Rightarrow> jsval \<Rightarrow> string" where
  "propertyKey h v = (case v of Str s \<Rightarrow> s | _ \<Rightarrow> toPropertyKey h v)"

text \<open>
  The loop of the \<open>listOfUnion\<close> case over the elements of the value, on the
  pair of \<open>nodes\<close> and \<open>dirty\<close>. The count of an id that \<open>nodes\<close> does not have
  is read as 0; for an id that is the name of a member of \<open>Object.prototype\<close>
  the source reads that member instead, and the sum is a string: the loop is
  the source's for the other ids.
\<close>

fun updateNodes :: "host \<Rightarrow> int \<Rightarrow> jsval list \<Rightarrow> int jsobject \<times> bool \<Rightarrow> int jsobject \<times> bool" where
  "updateNodes h delta [] (ns, dirty) = (ns, dirty)"
| "updateNodes h delta (nodeId # rest) (ns, dirty) =
     (let n = (case getProperty ns (propertyKey h nodeId) of
                 None \<Rightarrow> 0 | Some c \<Rightarrow> if c = 0 then 0 else c) + delta;
          ns' = setProperty ns (propertyKey h nodeId) n
      in updateNodes h delta rest (ns', dirty \<or> n = 0 \<or> n = 1))"

text \<open>
  \<open>updateValueDescriptor\<close>, with the two loops that call it back as functions
  of their own: \<open>updateProps\<close> is the \<open>forEach\<close> over the keys of an object
  value, each with its value (on \<open>props\<close> and \<open>dirty\<close>), \<open>updateItems\<close> the
  \<open>forEach\<close> over the elements of an array value (on \<open>typeInfo.item\<close> and
  \<open>dirty\<close>). The result is the pair the source returns. In the cases
  \<open>object\<close>, \<open>array\<close> and \<open>listOfUnion\<close> the value is read as the object or
  the array that \<open>getType\<close> has found it to be; the other branch of that
  reading is never taken. Counts are unbounded integers.
\<close>

function (sequential)
  updateValueDescriptor ::
    "host \<Rightarrow> string option \<Rightarrow> string \<Rightarrow> jsval \<Rightarrow> operation \<Rightarrow> descriptor option
       \<Rightarrow> descriptor \<times> bool"
  and updateProps ::
    "host \<Rightarrow> string option \<Rightarrow> operation \<Rightarrow> (string \<times> jsval) list
       \<Rightarrow> descriptor jsobject \<times> bool \<Rightarrow> descriptor jsobject \<times> bool"
  and updateItems ::
    "host \<Rightarrow> string option \<Rightarrow> string \<Rightarrow> operation \<Rightarrow> jsval list
       \<Rightarrow> descriptor option \<times> bool \<Rightarrow> descriptor option \<times> bool"
where
  "updateValueDescriptor h nodeId key value operation descriptor0 =
     (let descriptor = (case descriptor0 of None \<Rightarrow> [] | Some d \<Rightarrow> d) in
      case getType h value key of
        None \<Rightarrow> (descriptor, False)
      | Some typeName \<Rightarrow>
          (let delta = (if operation = Del then - 1 else 1);
               typeInfo = (case getInfo descriptor typeName of
                             None \<Rightarrow> TypeInfo 0 None Undefined None None None None
                           | Some ti \<Rightarrow> ti);
               tot = total_of typeInfo + delta;
               dirty = (tot = 1 \<or> tot = 0);
               fst' = (case operation of
                         Add \<Rightarrow> orElse (first typeInfo) nodeId
                       | Del \<Rightarrow> if first typeInfo = nodeId \<or> tot = 0 then None
                                else first typeInfo);
               ex = (if example typeInfo \<noteq> Undefined then example typeInfo else value)
           in case typeName of
                TObject \<Rightarrow>
                  (case value of
                     Obj kvs \<Rightarrow>
                       (let (ps', dirty') =
                              updateProps h nodeId operation kvs
                                (case props typeInfo of None \<Rightarrow> [] | Some p \<Rightarrow> p, dirty)
                        in (setInfo descriptor typeName
                              (TypeInfo tot fst' (example typeInfo) (empty_of typeInfo)
                                 (Some ps') (item typeInfo) (nodes typeInfo)),
                            dirty'))
                   | _ \<Rightarrow> (descriptor, False))
              | TArray \<Rightarrow>
                  (case value of
                     Arr xs \<Rightarrow>
                       (let (it', dirty') =
                              updateItems h nodeId key operation xs (item typeInfo, dirty)
                        in (setInfo descriptor typeName
                              (TypeInfo tot fst' (example typeInfo) (empty_of typeInfo)
                                 (props typeInfo) it' (nodes typeInfo)),
                            dirty'))
                   | _ \<Rightarrow> (descriptor, False))
              | TListOfUnion \<Rightarrow>
                  (case value of
                     Arr xs \<Rightarrow>
                       (let (ns', dirty') =
                              updateNodes h delta xs
                                (case nodes typeInfo of None \<Rightarrow> [] | Some n \<Rightarrow> n, dirty)
                        in (setInfo descriptor typeName
                              (TypeInfo tot fst' (example typeInfo) (empty_of typeInfo)
                                 (props typeInfo) (item typeInfo) (Some ns')),
                            dirty'))
                   | _ \<Rightarrow> (descriptor, False))
              | TString \<Rightarrow>
                  (setInfo descriptor typeName
                     (TypeInfo tot fst' ex
                        (if value = Str []
                         then Some ((case empty_of typeInfo of None \<Rightarrow> 0 | Some e \<Rightarrow> e) + delta)
                         else empty_of typeInfo)
                        (props typeInfo) (item typeInfo) (nodes typeInfo)),
                   dirty)
              | _ \<Rightarrow>
                  (setInfo descriptor typeName
                     (TypeInfo tot fst' ex (empty_of typeInfo)
                        (props typeInfo) (item typeInfo) (nodes typeInfo)),
                   dirty)))"
| "updateProps h nodeId operation [] (ps, dirty) = (ps, dirty)"
| "updateProps h nodeId operation ((key, v) # rest) (ps, dirty) =
     (let (propDescriptor, propDirty) =
            updateValueDescriptor h nodeId key v operation (getProperty ps key)
      in updateProps h nodeId operation rest
           (setProperty ps key propDescriptor, dirty \<or> propDirty))"
| "updateItems h nodeId key operation [] (it, dirty) = (it, dirty)"
| "updateItems h nodeId key operation (x # rest) (it, dirty) =
     (let (itemDescriptor, itemDirty) =
            updateValueDescriptor h nodeId key x operation it
      in updateItems h nodeId key operation rest (Some itemDescriptor, dirty \<or> itemDirty))"
  by pat_completeness auto

termination
  by (relation "measure (\<lambda>x. case x of
        Inl (h, nodeId, key, v, operation, d) \<Rightarrow> size v
      | Inr (Inl (h, nodeId, operation, kvs, st)) \<Rightarrow>
          size_list (size_prod (\<lambda>_. 0) size) kvs
      | Inr (Inr (h, nodeId, key, operation, xs, st)) \<Rightarrow> size_list size xs)")
    auto

declare updateValueDescriptor.simps [simp del]

subsection \<open>Node operations\<close>

text \<open>
  The type metadata. An absent \<open>ignored\<close> or \<open>dirty\<close> reads as \<open>False\<close> and an
  absent \<open>ignoredFields\<close> as the empty set, as the source defaults them; an
  absent \<open>fieldMap\<close> is \<open>None\<close>.
\<close>

record typeMetadata =
  ignored :: bool
  ignoredFields :: "string set"
  fieldMap :: "descriptor jsobject option"
  dirty :: bool

text \<open>
  A node is an object, given by its own properties, whose keys are distinct.
  \<open>node.id\<close> is a string, or \<open>undefined\<close> when the node has no such property.
\<close>

type_synonym node = "(string \<times> jsval) list"

definition nodeId_of :: "node \<Rightarrow> string option" where
  "nodeId_of node = (case getProperty node ''id'' of Some (Str s) \<Rightarrow> Some s | _ \<Rightarrow> None)"

definition valueAt :: "node \<Rightarrow> string \<Rightarrow> jsval" where
  "valueAt node field = (case getProperty node field of None \<Rightarrow> Undefined | Some v \<Rightarrow> v)"

definition nodeFields :: "node \<Rightarrow> string set \<Rightarrow> string list" where
  "nodeFields node ignoredFields' = filter (\<lambda>key. key \<notin> ignoredFields') (map fst node)"

text \<open>The \<open>forEach\<close> of \<open>updateTypeMetadata\<close>, on \<open>fieldMap\<close> and \<open>structureChanged\<close>.\<close>

fun updateFields ::
  "host \<Rightarrow> node \<Rightarrow> operation \<Rightarrow> string list \<Rightarrow> descriptor jsobject \<times> bool
     \<Rightarrow> descriptor jsobject \<times> bool" where
  "updateFields h node operation [] (fm, structureChanged) = (fm, structureChanged)"
| "updateFields h node operation (field # rest) (fm, structureChanged) =
     (let (descriptor, valueStructureChanged) =
            updateValueDescriptor h (nodeId_of node) field (valueAt node field) operation
              (getProperty fm field)
      in updateFields h node operation rest
           (setProperty fm field descriptor, structureChanged \<or> valueStructureChanged))"

definition updateTypeMetadata :: "host \<Rightarrow> typeMetadata \<Rightarrow> operation \<Rightarrow> node \<Rightarrow> typeMetadata" where
  "updateTypeMetadata h metadata operation node =
     (if ignored metadata then metadata
      else
        (let (fm, structureChanged) =
               updateFields h node operation (nodeFields node (ignoredFields metadata))
                 (case fieldMap metadata of None \<Rightarrow> [] | Some f \<Rightarrow> f, False)
         in metadata\<lparr>fieldMap := Some fm, dirty := (dirty metadata \<or> structureChanged)\<rparr>))"

definition ignore :: "typeMetadata \<Rightarrow> bool \<Rightarrow> typeMetadata" where
  "ignore metadata set' = metadata\<lparr>ignored := set'\<rparr>"

definition addNode :: "host \<Rightarrow> typeMetadata \<Rightarrow> node \<Rightarrow> typeMetadata" where
  "addNode h metadata node = updateTypeMetadata h metadata Add node"

definition deleteNode :: "host \<Rightarrow> typeMetadata \<Rightarrow> node \<Rightarrow> typeMetadata" where
  "deleteNode h metadata node = updateTypeMetadata h metadata Del node"

definition addNodes :: "host \<Rightarrow> typeMetadata \<Rightarrow> node list \<Rightarrow> typeMetadata" where
  "addNodes h metadata ns = foldl (addNode h) metadata ns"

text \<open>A sequence of \<open>addNode\<close> and \<open>deleteNode\<close> calls, applied in order.\<close>

definition applyCalls :: "host \<Rightarrow> typeMetadata \<Rightarrow> (operation \<times> node) list \<Rightarrow> typeMetadata" where
  "applyCalls h metadata calls =
     foldl (\<lambda>m (operation, node).
        case operation of Add \<Rightarrow> addNode h m node | Del \<Rightarrow> deleteNode h m node) metadata calls"

subsection \<open>The type resolver\<close>

definition isMixedNumber :: "descriptor \<Rightarrow> bool" where
  "isMixedNumber d =
     (case getInfo d TFloat of
        None \<Rightarrow> False
      | Some float \<Rightarrow> total_of float > 0 \<and>
          (case getInfo d TInt of None \<Rightarrow> False | Some int' \<Rightarrow> total_of int' > 0))"

definition isMixOfDateAndString :: "descriptor \<Rightarrow> bool" where
  "isMixOfDateAndString d =
     (case getInfo d TDate of
        None \<Rightarrow> False
      | Some date \<Rightarrow> total_of date > 0 \<and>
          (case getInfo d TString of None \<Rightarrow> False | Some string' \<Rightarrow> total_of string' > 0))"

definition hasOnlyEmptyStrings :: "descriptor \<Rightarrow> bool" where
  "hasOnlyEmptyStrings d =
     (case getInfo d TString of
        None \<Rightarrow> False
      | Some string' \<Rightarrow> empty_of string' = Some (total_of string'))"

definition possibleTypes :: "descriptor \<Rightarrow> typeName list" where
  "possibleTypes d =
     filter (\<lambda>t. case getInfo d t of None \<Rightarrow> False | Some ti \<Rightarrow> total_of ti > 0) (map fst d)"

definition resolveWinnerType :: "descriptor \<Rightarrow> typeName option \<times> bool" where
  "resolveWinnerType d =
     (let candidates = possibleTypes d in
      if length candidates = 1 then (Some (hd candidates), False)
      else if length candidates = 2 \<and> isMixedNumber d then (Some TFloat, False)
      else if length candidates = 2 \<and> isMixOfDateAndString d
        then (Some (if hasOnlyEmptyStrings d then TDate else TString), False)
      else if length candidates > 1 then (None, True)
      else (None, False))"

subsection \<open>The example builder and the conflict examples\<close>

text \<open>
  Reading a property of \<open>undefined\<close>, or its keys, raises a \<open>TypeError\<close>. A
  conflict example is the pair of its \<open>type\<close> and its \<open>value\<close>. The conflict
  reporter is absent (\<open>None\<close>) or holds the calls of \<open>addConflict\<close> it has
  received, in order, each with its path and examples.
\<close>

datatype error = TypeError

type_synonym conflictExample = "string \<times> jsval"

type_synonym reporter = "(string \<times> conflictExample list) list option"

definition addConflict :: "reporter \<Rightarrow> string \<Rightarrow> conflictExample list \<Rightarrow> reporter" where
  "addConflict r path examples =
     (case r of None \<Rightarrow> None | Some reports \<Rightarrow> Some (reports @ [(path, examples)]))"

text \<open>The tag as the string it is in the source, and the label of a conflict example.\<close>

fun typeNameString :: "typeName \<Rightarrow> string" where
  "typeNameString TInt = ''int''"
| "typeNameString TFloat = ''float''"
| "typeNameString TDate = ''date''"
| "typeNameString TString = ''string''"
| "typeNameString TBoolean = ''boolean''"
| "typeNameString TArray = ''array''"
| "typeNameString TListOfUnion = ''listOfUnion''"
| "typeNameString TObject = ''object''"

definition typeNameMapper :: "typeName \<Rightarrow> string" where
  "typeNameMapper t =
     (if t = TListOfUnion then ''[string]''
      else if t \<in> set [TFloat, TInt] then ''number'' else typeNameString t)"

text \<open>\<open>Array.prototype.join\<close> on strings.\<close>

fun join :: "string \<Rightarrow> string list \<Rightarrow> string" where
  "join sep [] = []"
| "join sep [s] = s"
| "join sep (s # t # rest) = s @ sep @ join sep (t # rest)"

text \<open>\<open>Object.keys(nodes).filter(key => nodes[key] > 0)\<close>, as an array of strings.\<close>

definition positiveIds :: "int jsobject \<Rightarrow> jsval" where
  "positiveIds ns =
     Arr (map Str (filter (\<lambda>key. case getProperty ns key of None \<Rightarrow> False | Some n \<Rightarrow> n > 0)
       (map fst ns)))"

text \<open>
  \<open>groupBy\<close> of lodash on the iteratee \<open>type => descriptor[type].first || ``\<close>:
  the groups are the properties of an object, each the array of its members in
  the order met.
\<close>

definition groupKey :: "descriptor \<Rightarrow> typeName \<Rightarrow> string" where
  "groupKey d t =
     (case getInfo d t of
        None \<Rightarrow> []
      | Some ti \<Rightarrow> (case first ti of None \<Rightarrow> [] | Some s \<Rightarrow> s))"

definition groupBy :: "typeName list \<Rightarrow> (typeName \<Rightarrow> string) \<Rightarrow> typeName list jsobject" where
  "groupBy ts iteratee =
     foldl (\<lambda>groups t.
        case getProperty groups (iteratee t) of
          None \<Rightarrow> setProperty groups (iteratee t) [t]
        | Some g \<Rightarrow> setProperty groups (iteratee t) (g @ [t])) [] ts"

text \<open>\<open>Array.prototype.map\<close> with a callback that may raise: the first error ends it.\<close>

fun mapE :: "('a \<Rightarrow> error + 'b) \<Rightarrow> 'a list \<Rightarrow> error + 'b list" where
  "mapE f [] = Inr []"
| "mapE f (x # xs) =
     (case f x of
        Inl e \<Rightarrow> Inl e
      | Inr y \<Rightarrow> (case mapE f xs of Inl e \<Rightarrow> Inl e | Inr ys \<Rightarrow> Inr (y # ys)))"

lemma mapE_cong [fundef_cong]:
  "xs = ys \<Longrightarrow> (\<And>x. x \<in> set ys \<Longrightarrow> f x = g x) \<Longrightarrow> mapE f xs = mapE g ys"
  by (induction ys arbitrary: xs) (auto split: sum.splits)

text \<open>A type-info is smaller than its descriptor, and its parts are smaller than it.\<close>

lemma getInfo_size: "getInfo d t = Some ti \<Longrightarrow> size ti < size_list (size_prod (\<lambda>x. 0) size) d"
  by (induction d) (auto split: if_splits)

lemma item_size:
  "getInfo d t = Some ti \<Longrightarrow> item ti = Some it \<Longrightarrow>
   size_list (size_prod (\<lambda>x. 0) size) it < size_list (size_prod (\<lambda>x. 0) size) d"
  using getInfo_size [of d t ti] by (cases ti) simp

lemma props_size:
  "getInfo d t = Some ti \<Longrightarrow>
   size_option (size_list (size_prod (\<lambda>x. 0) (size_list (size_prod (\<lambda>x. 0) size)))) (props ti)
     < size_list (size_prod (\<lambda>x. 0) size) d"
  using getInfo_size [of d t ti] by (cases ti) simp

lemma props_size_Some:
  "getInfo d t = Some ti \<Longrightarrow> props ti = Some ps \<Longrightarrow>
   size_list (size_prod (\<lambda>x. 0) (size_list (size_prod (\<lambda>x. 0) size))) ps
     < size_list (size_prod (\<lambda>x. 0) size) d"
  using props_size [of d t ti] by simp

text \<open>
  \<open>buildExampleValue\<close>, \<open>getExampleObject\<close> and \<open>prepareConflictExamples\<close>
  call each other. \<open>buildProps\<close> is the \<open>reduce\<close> of the \<open>object\<close> case over
  the properties and \<open>buildFields\<close> the \<open>reduce\<close> of \<open>getExampleObject\<close> over
  the fields, both on the accumulated object and the reporter;
  \<open>reportedValueMapper\<close> is the local function of \<open>prepareConflictExamples\<close>.
  The result is the value with the reporter after the calls made, or the error.
\<close>

function (sequential)
  buildExampleValue ::
    "descriptor \<Rightarrow> reporter \<Rightarrow> bool \<Rightarrow> string \<Rightarrow> error + (jsval \<times> reporter)"
  and buildProps ::
    "descriptor jsobject \<Rightarrow> reporter \<Rightarrow> string \<Rightarrow> jsval jsobject
       \<Rightarrow> error + (jsval jsobject \<times> reporter)"
  and getExampleObject ::
    "descriptor jsobject option \<Rightarrow> string \<Rightarrow> reporter \<Rightarrow> error + (jsval \<times> reporter)"
  and buildFields ::
    "descriptor jsobject \<Rightarrow> string \<Rightarrow> reporter \<Rightarrow> jsval jsobject
       \<Rightarrow> error + (jsval jsobject \<times> reporter)"
  and prepareConflictExamples :: "descriptor \<Rightarrow> bool \<Rightarrow> error + conflictExample list"
  and reportedValueMapper :: "descriptor \<Rightarrow> typeName \<Rightarrow> error + jsval"
where
  "buildExampleValue descriptor typeConflictReporter isArrayItem path =
     (let (type, conflicts) = resolveWinnerType descriptor in
      case (if conflicts \<and> typeConflictReporter \<noteq> None
            then (case prepareConflictExamples descriptor isArrayItem of
                    Inl e \<Rightarrow> Inl e
                  | Inr examples \<Rightarrow> Inr (addConflict typeConflictReporter path examples))
            else Inr typeConflictReporter) of
        Inl e \<Rightarrow> Inl e
      | Inr r \<Rightarrow>
          (case type of
             None \<Rightarrow> Inr (Null, r)
           | Some t \<Rightarrow>
               (case getInfo descriptor t of
                  None \<Rightarrow> Inl TypeError
                | Some typeInfo \<Rightarrow>
                    (if t = TDate \<or> t = TString then
                       (if isMixOfDateAndString descriptor
                        then Inr (if hasOnlyEmptyStrings descriptor
                                  then Str ''1978-09-26'' else Str ''String'', r)
                        else Inr (example typeInfo, r))
                     else if t = TArray then
                       (case item typeInfo of
                          None \<Rightarrow> Inr (Null, r)
                        | Some it \<Rightarrow>
                            (case buildExampleValue it r True path of
                               Inl e \<Rightarrow> Inl e
                             | Inr (exampleItemValue, r') \<Rightarrow>
                                 Inr (if exampleItemValue = Null then Null
                                      else Arr [exampleItemValue], r')))
                     else if t = TListOfUnion then
                       Inr (positiveIds (case nodes typeInfo of None \<Rightarrow> [] | Some ns \<Rightarrow> ns), r)
                     else if t = TObject then
                       (case props typeInfo of
                          None \<Rightarrow> Inl TypeError
                        | Some ps \<Rightarrow>
                            (case buildProps ps r path [] of
                               Inl e \<Rightarrow> Inl e
                             | Inr (acc, r') \<Rightarrow> Inr (Obj acc, r')))
                     else Inr (example typeInfo, r)))))"
| "buildProps [] typeConflictReporter path acc = Inr (acc, typeConflictReporter)"
| "buildProps ((prop, d) # rest) typeConflictReporter path acc =
     (case buildExampleValue d typeConflictReporter False (path @ ''.'' @ prop) of
        Inl e \<Rightarrow> Inl e
      | Inr (v, r) \<Rightarrow>
          buildProps rest r path (if v \<noteq> Null then setProperty acc prop v else acc))"
| "getExampleObject None typeName' typeConflictReporter = Inl TypeError"
| "getExampleObject (Some fm) typeName' typeConflictReporter =
     (case buildFields fm typeName' typeConflictReporter [] of
        Inl e \<Rightarrow> Inl e
      | Inr (acc, r) \<Rightarrow> Inr (Obj acc, r))"
| "buildFields [] typeName' typeConflictReporter acc = Inr (acc, typeConflictReporter)"
| "buildFields ((key, d) # rest) typeName' typeConflictReporter acc =
     (case buildExampleValue d typeConflictReporter False (typeName' @ ''.'' @ key) of
        Inl e \<Rightarrow> Inl e
      | Inr (v, r) \<Rightarrow>
          buildFields rest typeName' r
            (if key \<noteq> [] \<and> v \<noteq> Null then setProperty acc key v else acc))"
| "prepareConflictExamples descriptor isArrayItem =
     (let conflictingTypes = possibleTypes descriptor in
      if isArrayItem then
        mapE (\<lambda>(nodeId, g).
            case mapE (reportedValueMapper descriptor) g of
              Inl e \<Rightarrow> Inl e
            | Inr vs \<Rightarrow> Inr (''['' @ join '','' (map typeNameMapper g) @ '']'', Arr vs))
          (groupBy conflictingTypes (groupKey descriptor))
      else
        mapE (\<lambda>t.
            case reportedValueMapper descriptor t of
              Inl e \<Rightarrow> Inl e
            | Inr v \<Rightarrow> Inr (typeNameMapper t, v))
          conflictingTypes)"
| "reportedValueMapper descriptor t =
     (case getInfo descriptor t of
        None \<Rightarrow> Inl TypeError
      | Some typeInfo \<Rightarrow>
          (if t = TListOfUnion then
             (case nodes typeInfo of
                None \<Rightarrow> Inl TypeError
              | Some ns \<Rightarrow> Inr (positiveIds ns))
           else if t = TObject then
             (case getExampleObject (props typeInfo) ''object'' None of
                Inl e \<Rightarrow> Inl e
              | Inr (v, r) \<Rightarrow> Inr v)
           else if t = TArray then
             (case item typeInfo of
                None \<Rightarrow> Inl TypeError
              | Some it \<Rightarrow>
                  (case buildExampleValue it None True [] of
                     Inl e \<Rightarrow> Inl e
                   | Inr (itemValue, r) \<Rightarrow>
                       Inr (if itemValue = Null \<or> itemValue = Undefined then Arr []
                            else Arr [itemValue])))
           else Inr (example typeInfo)))"
  by pat_completeness auto

termination
  by (relation "inv_image (less_than <*lex*> less_than) (\<lambda>x. case x of
        Inl (Inl (d, r, a, p)) \<Rightarrow> (size_list (size_prod (\<lambda>x. 0) size) d, 3::nat)
      | Inl (Inr (Inl (ps, r, p, acc))) \<Rightarrow>
          (size_list (size_prod (\<lambda>x. 0) (size_list (size_prod (\<lambda>x. 0) size))) ps, 0)
      | Inl (Inr (Inr (fm, tn, r))) \<Rightarrow>
          (size_option (size_list (size_prod (\<lambda>x. 0) (size_list (size_prod (\<lambda>x. 0) size)))) fm, 1)
      | Inr (Inl (fm, tn, r, acc)) \<Rightarrow>
          (size_list (size_prod (\<lambda>x. 0) (size_list (size_prod (\<lambda>x. 0) size))) fm, 0)
      | Inr (Inr (Inl (d, a))) \<Rightarrow> (size_list (size_prod (\<lambda>x. 0) size) d, 2)
      | Inr (Inr (Inr (d, t))) \<Rightarrow> (size_list (size_prod (\<lambda>x. 0) size) d, 1))")
    (auto simp add: item_size props_size props_size_Some)

text \<open>\<open>isEmpty\<close>: no field has a possible type.\<close>

definition isEmpty :: "typeMetadata \<Rightarrow> error + bool" where
  "isEmpty metadata =
     (case fieldMap metadata of
        None \<Rightarrow> Inl TypeError
      | Some fm \<Rightarrow> Inr (list_all (\<lambda>(field, d). length (possibleTypes d) = 0) fm))"

declare buildExampleValue.simps [simp del]
declare prepareConflictExamples.simps [simp del]
declare reportedValueMapper.simps [simp del]

subsection \<open>Notions used in the statements\<close>

text \<open>The default \<open>descriptor = {}\<close> of \<open>updateValueDescriptor\<close>.\<close>

definition descOf :: "descriptor option \<Rightarrow> descriptor" where
  "descOf d0 = (case d0 of None \<Rightarrow> [] | Some d \<Rightarrow> d)"

text \<open>\<open>descriptor[typeName] || { total: 0 }\<close>.\<close>

definition infoAt :: "descriptor option \<Rightarrow> typeName \<Rightarrow> typeInfo" where
  "infoAt d0 t =
     (case getInfo (descOf d0) t of
        None \<Rightarrow> TypeInfo 0 None Undefined None None None None
      | Some ti \<Rightarrow> ti)"

text \<open>\<open>delta\<close>, the step of the counters.\<close>

definition deltaOf :: "operation \<Rightarrow> int" where
  "deltaOf operation = (if operation = Del then - 1 else 1)"

text \<open>The value of \<open>typeInfo.first\<close> after the bookkeeping of the first node.\<close>

definition firstAfter :: "operation \<Rightarrow> typeInfo \<Rightarrow> string option \<Rightarrow> string option" where
  "firstAfter operation ti nodeId =
     (case operation of
        Add \<Rightarrow> orElse (first ti) nodeId
      | Del \<Rightarrow> if first ti = nodeId \<or> total_of ti + deltaOf operation = 0 then None
               else first ti)"

text \<open>The tags of the \<open>string\<close> and \<open>default\<close> cases: \<open>int\<close>, \<open>float\<close>, \<open>date\<close>, \<open>string\<close>, \<open>boolean\<close>.\<close>

definition isScalar :: "typeName \<Rightarrow> bool" where
  "isScalar t = (t \<noteq> TObject \<and> t \<noteq> TArray \<and> t \<noteq> TListOfUnion)"

text \<open>The initial value of \<open>dirty\<close>, from the new total.\<close>

definition crossing :: "int \<Rightarrow> bool" where
  "crossing tot = (tot = 1 \<or> tot = 0)"

text \<open>A sequence of \<open>updateValueDescriptor\<close> calls on one descriptor, in order.\<close>

definition applyUpdates ::
  "host \<Rightarrow> descriptor \<Rightarrow> (string option \<times> string \<times> jsval \<times> operation) list \<Rightarrow> descriptor" where
  "applyUpdates h d calls =
     foldl (\<lambda>d (nodeId, key, v, operation).
        fst (updateValueDescriptor h nodeId key v operation (Some d))) d calls"

text \<open>A host for the concrete runs below: no string looks like a date.\<close>

definition plainHost :: host where
  "plainHost = \<lparr>looksLikeADate = (\<lambda>s. False), toPropertyKey = (\<lambda>v. [])\<rparr>"

text \<open>The tags of a descriptor that have a positive total.\<close>

definition positiveTags :: "descriptor \<Rightarrow> typeName set" where
  "positiveTags d = {t. \<exists>ti. getInfo d t = Some ti \<and> 0 < total_of ti}"

text \<open>
  The metadata of the usage example in the header of the source:
  \<open>{ ignoredFields: new Set(['id']) }\<close>, with nothing recorded yet.
\<close>

definition freshMetadata :: typeMetadata where
  "freshMetadata = \<lparr>ignored = False, ignoredFields = {''id''}, fieldMap = None, dirty = False\<rparr>"

text \<open>A descriptor with one tag taken out.\<close>

definition withoutType :: "descriptor \<Rightarrow> typeName \<Rightarrow> descriptor" where
  "withoutType d t = filter (\<lambda>(t', ti). t' \<noteq> t) d"

text \<open>
  The names of the members of \<open>Object.prototype\<close>, which \<open>obj[k]\<close> finds on
  every plain object. \<open>ownNames\<close> holds of a value, observed under a key, when
  the updater reads none of them: no property name of a nested object and no
  id of a reference list is such a name; \<open>ownNamesOnly\<close> holds of a node when
  this is so of every field that is not ignored, and of its name.
\<close>

definition objectPrototypeNames :: "string list" where
  "objectPrototypeNames =
     [''constructor'', ''__proto__'', ''hasOwnProperty'', ''isPrototypeOf'',
      ''propertyIsEnumerable'', ''toLocaleString'', ''toString'', ''valueOf'',
      ''__defineGetter__'', ''__defineSetter__'', ''__lookupGetter__'', ''__lookupSetter__'']"

fun ownNames :: "host \<Rightarrow> string \<Rightarrow> jsval \<Rightarrow> bool" where
  "ownNames h key (Obj kvs) =
     list_all (\<lambda>(k, v). k \<notin> set objectPrototypeNames \<and> ownNames h k v) kvs"
| "ownNames h key (Arr xs) =
     (if str_includes key ''___NODE''
      then list_all (\<lambda>x. propertyKey h x \<notin> set objectPrototypeNames) xs
      else list_all (ownNames h key) xs)"
| "ownNames h key v = True"

definition ownNamesOnly :: "host \<Rightarrow> string set \<Rightarrow> node \<Rightarrow> bool" where
  "ownNamesOnly h ignoredFields' node =
     list_all (\<lambda>field. field \<notin> set objectPrototypeNames \<and> ownNames h field (valueAt node field))
       (nodeFields node ignoredFields')"

subsection \<open>Counters\<close>

text \<open>
  The counters of a descriptor, at every depth: the \<open>total\<close> of a tag, the
  count of an id in the \<open>nodes\<close> of the \<open>listOfUnion\<close> entry, and the
  counters of the descriptor of a property of the \<open>object\<close> entry and of the
  \<open>item\<close> of the \<open>array\<close> entry. A counter that is not there reads 0: the
  absence of a tag means no observation.
\<close>

datatype counter =
    TotalOf typeName
  | NodeCount string
  | InProp string counter
  | InItem counter

fun counterAt :: "descriptor \<Rightarrow> counter \<Rightarrow> int" where
  "counterAt d (TotalOf t) = (case getInfo d t of None \<Rightarrow> 0 | Some ti \<Rightarrow> total_of ti)"
| "counterAt d (NodeCount k) =
     (case getInfo d TListOfUnion of
        None \<Rightarrow> 0
      | Some ti \<Rightarrow>
          (case nodes ti of
             None \<Rightarrow> 0
           | Some ns \<Rightarrow> (case getProperty ns k of None \<Rightarrow> 0 | Some n \<Rightarrow> n)))"
| "counterAt d (InProp k c) =
     (case getInfo d TObject of
        None \<Rightarrow> 0
      | Some ti \<Rightarrow>
          (case props ti of
             None \<Rightarrow> 0
           | Some ps \<Rightarrow> (case getProperty ps k of None \<Rightarrow> 0 | Some d' \<Rightarrow> counterAt d' c)))"
| "counterAt d (InItem c) =
     (case getInfo d TArray of
        None \<Rightarrow> 0
      | Some ti \<Rightarrow> (case item ti of None \<Rightarrow> 0 | Some d' \<Rightarrow> counterAt d' c))"

text \<open>A counter of the descriptor of a field of \<open>fieldMap\<close>.\<close>

definition fieldCounter :: "descriptor jsobject option \<Rightarrow> string \<Rightarrow> counter \<Rightarrow> int" where
  "fieldCounter fm field c =
     (case fm of
        None \<Rightarrow> 0
      | Some f \<Rightarrow> (case getProperty f field of None \<Rightarrow> 0 | Some d \<Rightarrow> counterAt d c))"

text \<open>
  How many times a value, observed under a key, counts towards a counter: it is
  what one \<open>add\<close> of the value adds to the counter, and one \<open>del\<close> takes away.
\<close>

fun occurrences :: "host \<Rightarrow> string \<Rightarrow> jsval \<Rightarrow> counter \<Rightarrow> int" where
  "occurrences h key v (TotalOf t) = (if getType h v key = Some t then 1 else 0)"
| "occurrences h key v (NodeCount k) =
     (if getType h v key = Some TListOfUnion
      then (case v of Arr xs \<Rightarrow> int (length (filter (\<lambda>x. propertyKey h x = k) xs)) | _ \<Rightarrow> 0)
      else 0)"
| "occurrences h key v (InProp k c) =
     (if getType h v key = Some TObject
      then (case v of
              Obj kvs \<Rightarrow> sum_list (map (\<lambda>(k', v'). if k' = k then occurrences h k' v' c else 0) kvs)
            | _ \<Rightarrow> 0)
      else 0)"
| "occurrences h key v (InItem c) =
     (if getType h v key = Some TArray
      then (case v of Arr xs \<Rightarrow> sum_list (map (\<lambda>x. occurrences h key x c) xs) | _ \<Rightarrow> 0)
      else 0)"

text \<open>The counters of \<open>nodes\<close>, of \<open>props\<close> and of \<open>item\<close>.\<close>

definition nodeCount :: "int jsobject \<Rightarrow> string \<Rightarrow> int" where
  "nodeCount ns k = (case getProperty ns k of None \<Rightarrow> 0 | Some n \<Rightarrow> n)"

definition propCounter :: "descriptor jsobject \<Rightarrow> string \<Rightarrow> counter \<Rightarrow> int" where
  "propCounter ps k c = (case getProperty ps k of None \<Rightarrow> 0 | Some d \<Rightarrow> counterAt d c)"

definition itemCounter :: "descriptor option \<Rightarrow> counter \<Rightarrow> int" where
  "itemCounter it c = (case it of None \<Rightarrow> 0 | Some d \<Rightarrow> counterAt d c)"

subsection \<open>Examples\<close>

text \<open>
  The place of an example in a descriptor, at any depth: the type-info of a tag
  of the descriptor itself, or a place in the descriptor of a property of its
  \<open>object\<close> entry, or in the \<open>item\<close> of its \<open>array\<close> entry. \<open>exampleAt\<close> is the
  \<open>example\<close> found there, \<open>Undefined\<close> when the place does not exist or the
  example is not set.
\<close>

datatype position =
    At typeName
  | UnderProp string position
  | UnderItem position

fun exampleAt :: "descriptor \<Rightarrow> position \<Rightarrow> jsval" where
  "exampleAt d (At t) = (case getInfo d t of None \<Rightarrow> Undefined | Some ti \<Rightarrow> example ti)"
| "exampleAt d (UnderProp k p) =
     (case getInfo d TObject of
        None \<Rightarrow> Undefined
      | Some ti \<Rightarrow>
          (case props ti of
             None \<Rightarrow> Undefined
           | Some ps \<Rightarrow> (case getProperty ps k of None \<Rightarrow> Undefined | Some d' \<Rightarrow> exampleAt d' p)))"
| "exampleAt d (UnderItem p) =
     (case getInfo d TArray of
        None \<Rightarrow> Undefined
      | Some ti \<Rightarrow> (case item ti of None \<Rightarrow> Undefined | Some d' \<Rightarrow> exampleAt d' p))"

text \<open>The examples of \<open>props\<close> and of \<open>item\<close>.\<close>

definition propExample :: "descriptor jsobject \<Rightarrow> string \<Rightarrow> position \<Rightarrow> jsval" where
  "propExample ps k p = (case getProperty ps k of None \<Rightarrow> Undefined | Some d \<Rightarrow> exampleAt d p)"

definition itemExample :: "descriptor option \<Rightarrow> position \<Rightarrow> jsval" where
  "itemExample it p = (case it of None \<Rightarrow> Undefined | Some d \<Rightarrow> exampleAt d p)"

subsection \<open>Classification\<close>

lemma includes_iff: "str_includes key s \<longleftrightarrow> (\<exists>pre post. key = pre @ s @ post)"
proof (induction key)
  case Nil
  then show ?case by auto
next
  case (Cons c cs)
  have "take (length s) (c # cs) = s \<longleftrightarrow> (\<exists>post. c # cs = s @ post)"
  proof
    assume "take (length s) (c # cs) = s"
    then have "c # cs = s @ drop (length s) (c # cs)"
      by (metis append_take_drop_id)
    then show "\<exists>post. c # cs = s @ post" ..
  next
    assume "\<exists>post. c # cs = s @ post"
    then show "take (length s) (c # cs) = s" by auto
  qed
  moreover have "(\<exists>pre post. c # cs = pre @ s @ post) \<longleftrightarrow>
      (\<exists>post. c # cs = s @ post) \<or> (\<exists>pre post. cs = pre @ s @ post)"
  proof
    assume "\<exists>pre post. c # cs = pre @ s @ post"
    then obtain pre post where e: "c # cs = pre @ s @ post" by blast
    show "(\<exists>post. c # cs = s @ post) \<or> (\<exists>pre post. cs = pre @ s @ post)"
    proof (cases pre)
      case Nil
      with e show ?thesis by auto
    next
      case (Cons p ps)
      with e have "cs = ps @ s @ post" by simp
      then show ?thesis by blast
    qed
  next
    assume "(\<exists>post. c # cs = s @ post) \<or> (\<exists>pre post. cs = pre @ s @ post)"
    then show "\<exists>pre post. c # cs = pre @ s @ post"
    proof
      assume "\<exists>post. c # cs = s @ post"
      then obtain post where "c # cs = [] @ s @ post" by auto
      then show ?thesis by blast
    next
      assume "\<exists>pre post. cs = pre @ s @ post"
      then obtain pre post where "cs = pre @ s @ post" by blast
      then have "c # cs = (c # pre) @ s @ post" by simp
      then show ?thesis by blast
    qed
  qed
  ultimately show ?case using Cons.IH by simp
qed

lemma is32BitInteger_iff:
  "is32BitInteger x \<longleftrightarrow> (\<exists>i::int. - (2 ^ 31) \<le> i \<and> i < 2 ^ 31 \<and> x = Finite (of_int i))"
proof (cases x)
  case (Finite q)
  show ?thesis
  proof
    assume "is32BitInteger x"
    with Finite have "- (2 ^ 31) \<le> \<lfloor>q\<rfloor> \<and> \<lfloor>q\<rfloor> < 2 ^ 31 \<and> x = Finite (of_int \<lfloor>q\<rfloor>)"
      by auto
    then show "\<exists>i::int. - (2 ^ 31) \<le> i \<and> i < 2 ^ 31 \<and> x = Finite (of_int i)" ..
  next
    assume "\<exists>i::int. - (2 ^ 31) \<le> i \<and> i < 2 ^ 31 \<and> x = Finite (of_int i)"
    then obtain i :: int where "- (2 ^ 31) \<le> i" "i < 2 ^ 31" "x = Finite (of_int i)"
      by blast
    then show "is32BitInteger x" by simp
  qed
qed simp_all

text \<open>
  C7. \<open>getType\<close> is a total function of the value and the key, with no raising
  path: a number is an \<open>int\<close> exactly when it is a 32-bit signed integer and
  a \<open>float\<close> otherwise; an empty array is \<open>null\<close>; a non-empty array is a
  \<open>listOfUnion\<close> exactly when the key contains \<open>___NODE\<close> and an \<open>array\<close>
  otherwise; an object with no own property is \<open>null\<close>; and \<open>undefined\<close>,
  \<open>null\<close>, functions, symbols and big integers are \<open>null\<close>.
\<close>

theorem getType_classification:
  "getType h (Number x) key =
     Some (if (\<exists>i::int. - (2 ^ 31) \<le> i \<and> i < 2 ^ 31 \<and> x = Finite (of_int i))
           then TInt else TFloat)
   \<and> getType h (Arr []) key = None
   \<and> getType h (Arr (v # vs)) key =
       Some (if (\<exists>pre post. key = pre @ ''___NODE'' @ post) then TListOfUnion else TArray)
   \<and> getType h (Obj []) key = None
   \<and> getType h Undefined key = None
   \<and> getType h Null key = None
   \<and> getType h Function key = None
   \<and> getType h Symbol key = None
   \<and> getType h (BigInt n) key = None"
proof -
  have num: "getType h (Number x) key =
      Some (if (\<exists>i::int. - (2 ^ 31) \<le> i \<and> i < 2 ^ 31 \<and> x = Finite (of_int i))
            then TInt else TFloat)"
    unfolding getType.simps is32BitInteger_iff by (rule if_distrib [symmetric])
  have arr: "getType h (Arr (v # vs)) key =
      Some (if (\<exists>pre post. key = pre @ ''___NODE'' @ post) then TListOfUnion else TArray)"
  proof -
    have "getType h (Arr (v # vs)) key =
        (if str_includes key ''___NODE'' then Some TListOfUnion else Some TArray)"
      by simp
    then show ?thesis
      unfolding includes_iff by (simp only: if_distrib [of Some])
  qed
  show ?thesis
    using num arr by simp
qed

subsection \<open>Reading and writing properties\<close>

lemma getInfo_setInfo:
  "getInfo (setInfo d t ti) t' = (if t' = t then Some ti else getInfo d t')"
  by (induction d) auto

lemma getProperty_insertIndex:
  "k \<notin> set (map fst obj) \<Longrightarrow>
   getProperty (insertIndex i k v obj) k' = (if k' = k then Some v else getProperty obj k')"
  by (induction obj) (auto split: option.splits)

lemma getProperty_replace_other:
  "j \<noteq> k \<Longrightarrow>
   getProperty (map (\<lambda>(k', v'). if k' = k then (k', v) else (k', v')) obj) j =
     getProperty obj j"
  by (induction obj) auto

lemma getProperty_replace_same:
  "k \<in> set (map fst obj) \<Longrightarrow>
   getProperty (map (\<lambda>(k', v'). if k' = k then (k', v) else (k', v')) obj) k = Some v"
proof (induction obj)
  case Nil
  then show ?case by simp
next
  case (Cons p obj)
  show ?case
  proof (cases "fst p = k")
    case True
    then show ?thesis by (cases p) simp
  next
    case False
    with Cons.prems have "k \<in> set (map fst obj)" by auto
    with Cons.IH False show ?thesis by (cases p) simp
  qed
qed

lemma getProperty_append_new:
  "k \<notin> set (map fst obj) \<Longrightarrow>
   getProperty (obj @ [(k, v)]) k' = (if k' = k then Some v else getProperty obj k')"
  by (induction obj) auto

lemma getProperty_setProperty:
  "getProperty (setProperty obj k v) k' = (if k' = k then Some v else getProperty obj k')"
proof (cases "k \<in> set (map fst obj)")
  case True
  then show ?thesis
    unfolding setProperty_def
    using getProperty_replace_same [OF True, of v] getProperty_replace_other [of k' k v obj]
    by (cases "k' = k") (simp_all del: set_map)
next
  case False
  show ?thesis
    unfolding setProperty_def
    using False getProperty_append_new [OF False] getProperty_insertIndex [OF False]
    by (simp del: set_map split: option.splits)
qed

subsection \<open>The shape of a classified value\<close>

lemma getType_TObject: "getType h v key = Some TObject \<Longrightarrow> \<exists>kvs. v = Obj kvs"
  by (cases v) (auto split: if_splits)

lemma getType_TArray: "getType h v key = Some TArray \<Longrightarrow> \<exists>xs. v = Arr xs"
  by (cases v) (auto split: if_splits)

lemma getType_TListOfUnion: "getType h v key = Some TListOfUnion \<Longrightarrow> \<exists>xs. v = Arr xs"
  by (cases v) (auto split: if_splits)

lemma is32BitInteger_Finite:
  "is32BitInteger (Finite q) = (q \<in> \<int> \<and> - (2 ^ 31) \<le> q \<and> q < 2 ^ 31)"
proof (cases "q \<in> \<int>")
  case True
  then obtain i :: int where q: "q = of_int i" by (auto elim: Ints_cases)
  have "(- (2 ^ 31) \<le> (of_int i :: rat)) = (- (2 ^ 31) \<le> i)"
    using of_int_le_iff [of "- (2 ^ 31)" i, where 'a = rat] by simp
  moreover have "((of_int i :: rat) < 2 ^ 31) = (i < 2 ^ 31)"
    using of_int_less_iff [of i "2 ^ 31", where 'a = rat] by simp
  ultimately show ?thesis unfolding q by simp
next
  case False
  then have "of_int \<lfloor>q\<rfloor> \<noteq> q" by (metis Ints_of_int)
  with False show ?thesis by simp
qed

subsection \<open>The result of the updater, tag by tag\<close>

lemma updateNodes_dirty: "snd (updateNodes h delta xs (ns, True)) = True"
  by (induction xs arbitrary: ns) (simp_all add: Let_def)

lemma updateProps_dirty: "snd (updateProps h nodeId operation kvs (ps, True)) = True"
  by (induction kvs arbitrary: ps) (auto simp add: Let_def split: prod.splits)

lemma updateItems_dirty: "snd (updateItems h nodeId key operation xs (it, True)) = True"
  by (induction xs arbitrary: it) (auto simp add: Let_def split: prod.splits)

lemma update_null:
  "getType h v key = None \<Longrightarrow>
   updateValueDescriptor h nodeId key v operation d0 = (descOf d0, False)"
  by (simp add: updateValueDescriptor.simps descOf_def)

lemma update_object:
  assumes "getType h (Obj kvs) key = Some TObject"
  shows "updateValueDescriptor h nodeId key (Obj kvs) operation d0 =
    (setInfo (descOf d0) TObject
       (TypeInfo (total_of (infoAt d0 TObject) + deltaOf operation)
          (firstAfter operation (infoAt d0 TObject) nodeId)
          (example (infoAt d0 TObject)) (empty_of (infoAt d0 TObject))
          (Some (fst (updateProps h nodeId operation kvs
             (case props (infoAt d0 TObject) of None \<Rightarrow> [] | Some p \<Rightarrow> p,
              crossing (total_of (infoAt d0 TObject) + deltaOf operation)))))
          (item (infoAt d0 TObject)) (nodes (infoAt d0 TObject))),
     snd (updateProps h nodeId operation kvs
             (case props (infoAt d0 TObject) of None \<Rightarrow> [] | Some p \<Rightarrow> p,
              crossing (total_of (infoAt d0 TObject) + deltaOf operation))))"
  unfolding updateValueDescriptor.simps [of h nodeId key "Obj kvs"] assms
  by (simp add: Let_def descOf_def infoAt_def deltaOf_def firstAfter_def crossing_def
        split: prod.splits operation.splits)

lemma update_array:
  assumes "getType h (Arr xs) key = Some TArray"
  shows "updateValueDescriptor h nodeId key (Arr xs) operation d0 =
    (setInfo (descOf d0) TArray
       (TypeInfo (total_of (infoAt d0 TArray) + deltaOf operation)
          (firstAfter operation (infoAt d0 TArray) nodeId)
          (example (infoAt d0 TArray)) (empty_of (infoAt d0 TArray))
          (props (infoAt d0 TArray))
          (fst (updateItems h nodeId key operation xs
             (item (infoAt d0 TArray),
              crossing (total_of (infoAt d0 TArray) + deltaOf operation))))
          (nodes (infoAt d0 TArray))),
     snd (updateItems h nodeId key operation xs
             (item (infoAt d0 TArray),
              crossing (total_of (infoAt d0 TArray) + deltaOf operation))))"
  unfolding updateValueDescriptor.simps [of h nodeId key "Arr xs"] assms
  by (simp add: Let_def descOf_def infoAt_def deltaOf_def firstAfter_def crossing_def
        split: prod.splits operation.splits)

lemma update_listOfUnion:
  assumes "getType h (Arr xs) key = Some TListOfUnion"
  shows "updateValueDescriptor h nodeId key (Arr xs) operation d0 =
    (setInfo (descOf d0) TListOfUnion
       (TypeInfo (total_of (infoAt d0 TListOfUnion) + deltaOf operation)
          (firstAfter operation (infoAt d0 TListOfUnion) nodeId)
          (example (infoAt d0 TListOfUnion)) (empty_of (infoAt d0 TListOfUnion))
          (props (infoAt d0 TListOfUnion)) (item (infoAt d0 TListOfUnion))
          (Some (fst (updateNodes h (deltaOf operation) xs
             (case nodes (infoAt d0 TListOfUnion) of None \<Rightarrow> [] | Some n \<Rightarrow> n,
              crossing (total_of (infoAt d0 TListOfUnion) + deltaOf operation)))))),
     snd (updateNodes h (deltaOf operation) xs
             (case nodes (infoAt d0 TListOfUnion) of None \<Rightarrow> [] | Some n \<Rightarrow> n,
              crossing (total_of (infoAt d0 TListOfUnion) + deltaOf operation))))"
  unfolding updateValueDescriptor.simps [of h nodeId key "Arr xs"] assms
  by (simp add: Let_def descOf_def infoAt_def deltaOf_def firstAfter_def crossing_def
        split: prod.splits operation.splits)

lemma update_scalar:
  assumes "getType h v key = Some t" "isScalar t"
  shows "updateValueDescriptor h nodeId key v operation d0 =
    (setInfo (descOf d0) t
       (TypeInfo (total_of (infoAt d0 t) + deltaOf operation)
          (firstAfter operation (infoAt d0 t) nodeId)
          (if example (infoAt d0 t) \<noteq> Undefined then example (infoAt d0 t) else v)
          (if t = TString \<and> v = Str []
           then Some ((case empty_of (infoAt d0 t) of None \<Rightarrow> 0 | Some e \<Rightarrow> e) + deltaOf operation)
           else empty_of (infoAt d0 t))
          (props (infoAt d0 t)) (item (infoAt d0 t)) (nodes (infoAt d0 t))),
     crossing (total_of (infoAt d0 t) + deltaOf operation))"
  using assms(2)
  unfolding updateValueDescriptor.simps [of h nodeId key v] assms(1)
  by (cases t)
     (simp_all add: Let_def descOf_def infoAt_def deltaOf_def firstAfter_def crossing_def
        isScalar_def split: operation.splits)

lemma update_cases:
  obtains (null) "getType h v key = None"
      "updateValueDescriptor h nodeId key v operation d0 = (descOf d0, False)"
  | (typed) t ti' where "getType h v key = Some t"
      "fst (updateValueDescriptor h nodeId key v operation d0) = setInfo (descOf d0) t ti'"
      "total_of ti' = total_of (infoAt d0 t) + deltaOf operation"
      "example ti' =
         (if isScalar t \<and> example (infoAt d0 t) = Undefined then v else example (infoAt d0 t))"
proof (cases "getType h v key")
  case None
  then show ?thesis using null update_null by blast
next
  case (Some t)
  show ?thesis
  proof (cases "isScalar t")
    case True
    show ?thesis
      by (rule typed [OF Some], simp add: update_scalar [OF Some True]) (simp_all add: True)
  next
    case False
    then consider "t = TObject" | "t = TArray" | "t = TListOfUnion"
      unfolding isScalar_def by blast
    then show ?thesis
    proof cases
      case 1
      with Some obtain kvs where v: "v = Obj kvs" using getType_TObject by blast
      have g: "getType h (Obj kvs) key = Some TObject" using Some 1 v by simp
      show ?thesis
        by (rule typed [OF Some], simp add: v 1 update_object [OF g])
           (simp_all add: 1 isScalar_def)
    next
      case 2
      with Some obtain xs where v: "v = Arr xs" using getType_TArray by blast
      have g: "getType h (Arr xs) key = Some TArray" using Some 2 v by simp
      show ?thesis
        by (rule typed [OF Some], simp add: v 2 update_array [OF g])
           (simp_all add: 2 isScalar_def)
    next
      case 3
      with Some obtain xs where v: "v = Arr xs" using getType_TListOfUnion by blast
      have g: "getType h (Arr xs) key = Some TListOfUnion" using Some 3 v by simp
      show ?thesis
        by (rule typed [OF Some], simp add: v 3 update_listOfUnion [OF g])
           (simp_all add: 3 isScalar_def)
    qed
  qed
qed

lemma update_flag_crossing:
  assumes "getType h v key = Some t"
    "crossing (total_of (infoAt d0 t) + deltaOf operation)"
  shows "snd (updateValueDescriptor h nodeId key v operation d0)"
proof (cases "isScalar t")
  case True
  then show ?thesis using assms by (simp add: update_scalar)
next
  case False
  then consider "t = TObject" | "t = TArray" | "t = TListOfUnion"
    unfolding isScalar_def by blast
  then show ?thesis
  proof cases
    case 1
    with assms obtain kvs where v: "v = Obj kvs" using getType_TObject by blast
    have g: "getType h (Obj kvs) key = Some TObject" using assms 1 v by simp
    show ?thesis using assms(2) by (simp add: v 1 update_object [OF g] updateProps_dirty)
  next
    case 2
    with assms obtain xs where v: "v = Arr xs" using getType_TArray by blast
    have g: "getType h (Arr xs) key = Some TArray" using assms 2 v by simp
    show ?thesis using assms(2) by (simp add: v 2 update_array [OF g] updateItems_dirty)
  next
    case 3
    with assms obtain xs where v: "v = Arr xs" using getType_TListOfUnion by blast
    have g: "getType h (Arr xs) key = Some TListOfUnion" using assms 3 v by simp
    show ?thesis using assms(2) by (simp add: v 3 update_listOfUnion [OF g] updateNodes_dirty)
  qed
qed

subsection \<open>The resolution policy\<close>

lemma getInfo_Some_key: "getInfo d t = Some ti \<Longrightarrow> t \<in> set (map fst d)"
  by (induction d) (auto split: if_splits)

lemma possibleTypes_set: "set (possibleTypes d) = positiveTags d"
  unfolding possibleTypes_def positiveTags_def
  using getInfo_Some_key by (auto split: option.splits)

lemma possibleTypes_length:
  "distinct (map fst d) \<Longrightarrow> length (possibleTypes d) = card (positiveTags d)"
proof -
  assume "distinct (map fst d)"
  then have "distinct (possibleTypes d)"
    unfolding possibleTypes_def by (rule distinct_filter)
  then have "card (set (possibleTypes d)) = length (possibleTypes d)"
    by (rule distinct_card)
  then show ?thesis by (simp only: possibleTypes_set)
qed

lemma isMixedNumber_iff: "isMixedNumber d \<longleftrightarrow> TFloat \<in> positiveTags d \<and> TInt \<in> positiveTags d"
  by (auto simp add: isMixedNumber_def positiveTags_def split: option.splits)

lemma isMixOfDateAndString_iff:
  "isMixOfDateAndString d \<longleftrightarrow> TDate \<in> positiveTags d \<and> TString \<in> positiveTags d"
  by (auto simp add: isMixOfDateAndString_def positiveTags_def split: option.splits)

lemma two_of_two:
  assumes "card S = 2" "a \<in> S" "b \<in> S" "a \<noteq> b"
  shows "S = {a, b}"
proof -
  have fin: "finite S" using assms(1) by (metis card.infinite zero_neq_numeral)
  have "card {a, b} = 2" using assms(4) by simp
  moreover have "{a, b} \<subseteq> S" using assms by simp
  ultimately show ?thesis using assms(1) fin by (metis card_subset_eq)
qed

text \<open>
  C3. On a descriptor (an object: its keys are distinct), \<open>resolveWinnerType\<close>
  gives \<open>null\<close> and no conflict when no tag has a positive total; the tag and
  no conflict when exactly one has; \<open>float\<close> and no conflict when the positive
  tags are \<open>int\<close> and \<open>float\<close>; \<open>date\<close> when the \<open>empty\<close> count of the strings
  is their total and \<open>string\<close> otherwise, with no conflict, when the positive
  tags are \<open>date\<close> and \<open>string\<close>; and \<open>null\<close> with a conflict for every other
  set of two or more positive tags.
\<close>

theorem resolveWinnerType_policy:
  assumes "distinct (map fst d)"
  shows "(positiveTags d = {} \<longrightarrow> resolveWinnerType d = (None, False))
   \<and> (positiveTags d = {t} \<longrightarrow> resolveWinnerType d = (Some t, False))
   \<and> (positiveTags d = {TInt, TFloat} \<longrightarrow> resolveWinnerType d = (Some TFloat, False))
   \<and> (positiveTags d = {TDate, TString} \<longrightarrow>
        resolveWinnerType d =
          (Some (if \<exists>s. getInfo d TString = Some s \<and> empty_of s = Some (total_of s)
                 then TDate else TString), False))
   \<and> (2 \<le> card (positiveTags d) \<and> positiveTags d \<noteq> {TInt, TFloat}
        \<and> positiveTags d \<noteq> {TDate, TString} \<longrightarrow>
        resolveWinnerType d = (None, True))"
proof (intro conjI impI)
  note len = possibleTypes_length [OF assms]
  {
    assume "positiveTags d = {}"
    then show "resolveWinnerType d = (None, False)"
      using len by (simp add: resolveWinnerType_def)
  next
    assume one: "positiveTags d = {t}"
    then have "length (possibleTypes d) = 1" using len by simp
    moreover from this have "hd (possibleTypes d) \<in> set (possibleTypes d)"
      by (cases "possibleTypes d") auto
    then have "hd (possibleTypes d) = t" using one by (simp add: possibleTypes_set)
    ultimately show "resolveWinnerType d = (Some t, False)"
      by (simp add: resolveWinnerType_def)
  next
    assume two: "positiveTags d = {TInt, TFloat}"
    then have "length (possibleTypes d) = 2" using len by simp
    moreover have "isMixedNumber d" using two by (simp add: isMixedNumber_iff)
    ultimately show "resolveWinnerType d = (Some TFloat, False)"
      by (simp add: resolveWinnerType_def)
  next
    assume two: "positiveTags d = {TDate, TString}"
    then have "length (possibleTypes d) = 2" using len by simp
    moreover have "\<not> isMixedNumber d" "isMixOfDateAndString d"
      using two by (simp_all add: isMixedNumber_iff isMixOfDateAndString_iff)
    moreover have "hasOnlyEmptyStrings d \<longleftrightarrow>
        (\<exists>s. getInfo d TString = Some s \<and> empty_of s = Some (total_of s))"
      by (simp add: hasOnlyEmptyStrings_def split: option.splits)
    ultimately show "resolveWinnerType d =
          (Some (if \<exists>s. getInfo d TString = Some s \<and> empty_of s = Some (total_of s)
                 then TDate else TString), False)"
      by (simp add: resolveWinnerType_def)
  next
    assume a: "2 \<le> card (positiveTags d) \<and> positiveTags d \<noteq> {TInt, TFloat}
        \<and> positiveTags d \<noteq> {TDate, TString}"
    have n1: "\<not> (length (possibleTypes d) = 2 \<and> isMixedNumber d)"
    proof
      assume "length (possibleTypes d) = 2 \<and> isMixedNumber d"
      then have "positiveTags d = {TInt, TFloat}"
        using len two_of_two [of "positiveTags d" TInt TFloat]
        by (simp add: isMixedNumber_iff)
      with a show False by simp
    qed
    have n2: "\<not> (length (possibleTypes d) = 2 \<and> isMixOfDateAndString d)"
    proof
      assume "length (possibleTypes d) = 2 \<and> isMixOfDateAndString d"
      then have "positiveTags d = {TDate, TString}"
        using len two_of_two [of "positiveTags d" TDate TString]
        by (simp add: isMixOfDateAndString_iff)
      with a show False by simp
    qed
    have "length (possibleTypes d) \<noteq> 1" "1 < length (possibleTypes d)"
      using a len by simp_all
    with n1 n2 show "resolveWinnerType d = (None, True)"
      by (auto simp add: resolveWinnerType_def)
  }
qed

theorem resolveWinnerType_policy_witness:
  "distinct (map fst
      [(TInt, TypeInfo 1 (Some ''1'') (Number (Finite 1)) None None None None),
       (TFloat, TypeInfo 1 (Some ''2'') (Number (Finite (3 / 2))) None None None None),
       (TString, TypeInfo 0 None (Str ''x'') None None None None)])
   \<and> positiveTags
      [(TInt, TypeInfo 1 (Some ''1'') (Number (Finite 1)) None None None None),
       (TFloat, TypeInfo 1 (Some ''2'') (Number (Finite (3 / 2))) None None None None),
       (TString, TypeInfo 0 None (Str ''x'') None None None None)] = {TInt, TFloat}
   \<and> resolveWinnerType
      [(TInt, TypeInfo 1 (Some ''1'') (Number (Finite 1)) None None None None),
       (TFloat, TypeInfo 1 (Some ''2'') (Number (Finite (3 / 2))) None None None None),
       (TString, TypeInfo 0 None (Str ''x'') None None None None)] = (Some TFloat, False)
   \<and> distinct (map fst
      [(TInt, TypeInfo 1 (Some ''1'') (Number (Finite 25)) None None None None),
       (TString, TypeInfo 1 (Some ''2'') (Str ''x'') None None None None)])
   \<and> 2 \<le> card (positiveTags
      [(TInt, TypeInfo 1 (Some ''1'') (Number (Finite 25)) None None None None),
       (TString, TypeInfo 1 (Some ''2'') (Str ''x'') None None None None)])
   \<and> resolveWinnerType
      [(TInt, TypeInfo 1 (Some ''1'') (Number (Finite 25)) None None None None),
       (TString, TypeInfo 1 (Some ''2'') (Str ''x'') None None None None)] = (None, True)"
proof -
  let ?d1 = "[(TInt, TypeInfo 1 (Some ''1'') (Number (Finite 1)) None None None None),
       (TFloat, TypeInfo 1 (Some ''2'') (Number (Finite (3 / 2))) None None None None),
       (TString, TypeInfo 0 None (Str ''x'') None None None None)]"
  let ?d2 = "[(TInt, TypeInfo 1 (Some ''1'') (Number (Finite 25)) None None None None),
       (TString, TypeInfo 1 (Some ''2'') (Str ''x'') None None None None)]"
  have dist1: "distinct (map fst ?d1)" and dist2: "distinct (map fst ?d2)"
    by simp_all
  have p1: "positiveTags ?d1 = {TInt, TFloat}"
    unfolding possibleTypes_set [symmetric] by (simp add: possibleTypes_def)
  have p2: "positiveTags ?d2 = {TInt, TString}"
    unfolding possibleTypes_set [symmetric] by (simp add: possibleTypes_def)
  have c2: "2 \<le> card (positiveTags ?d2)"
    unfolding p2 by simp
  have n2: "positiveTags ?d2 \<noteq> {TInt, TFloat}" "positiveTags ?d2 \<noteq> {TDate, TString}"
    unfolding p2 by auto
  show ?thesis
    using resolveWinnerType_policy [OF dist1, of TInt] resolveWinnerType_policy [OF dist2, of TInt]
      dist1 dist2 p1 c2 n2
    by simp
qed

subsection \<open>Two runs: numeric widening, and a conflict\<close>

lemma arrayIndex_foo: "arrayIndex ''foo'' = None"
  by (simp add: arrayIndex_def isDigit_def)

lemma widening_fieldMap:
  "fieldMap (addNode h (addNode h freshMetadata
       [(''id'', Str ''1''), (''foo'', Number (Finite 1))])
       [(''id'', Str ''2''), (''foo'', Number (Finite (3 / 2)))]) =
     Some [(''foo'',
        [(TInt, TypeInfo 1 (Some ''1'') (Number (Finite 1)) None None None None),
         (TFloat, TypeInfo 1 (Some ''2'') (Number (Finite (3 / 2))) None None None None)])]"
  by (simp add: addNode_def updateTypeMetadata_def freshMetadata_def nodeFields_def
        nodeId_of_def valueAt_def updateValueDescriptor.simps Let_def orElse_def
        is32BitInteger_Finite arrayIndex_foo setProperty_def
        del: is32BitInteger.simps)

lemma widening_example:
  "getExampleObject
     (Some [(''foo'',
        [(TInt, TypeInfo 1 (Some ''1'') (Number (Finite 1)) None None None None),
         (TFloat, TypeInfo 1 (Some ''2'') (Number (Finite (3 / 2))) None None None None)])])
     typeName' r =
   Inr (Obj [(''foo'', Number (Finite (3 / 2)))], r)"
  by (simp add: buildExampleValue.simps resolveWinnerType_def possibleTypes_def
        isMixedNumber_def Let_def arrayIndex_foo setProperty_def)

text \<open>
  C4, as the code has it. After \<open>{id: "1", foo: 1}\<close> and \<open>{id: "2", foo: 1.5}\<close>
  the descriptor of \<open>foo\<close> holds \<open>int\<close> with the example 1 and \<open>float\<close> with
  the example 1.5; the winning type is \<open>float\<close>, nothing is reported, and the
  example of \<open>foo\<close> is the example stored for \<open>float\<close>, which is 1.5.
\<close>

theorem numeric_widening_amended:
  "fieldMap (addNode h (addNode h freshMetadata
       [(''id'', Str ''1''), (''foo'', Number (Finite 1))])
       [(''id'', Str ''2''), (''foo'', Number (Finite (3 / 2)))]) =
     Some [(''foo'',
        [(TInt, TypeInfo 1 (Some ''1'') (Number (Finite 1)) None None None None),
         (TFloat, TypeInfo 1 (Some ''2'') (Number (Finite (3 / 2))) None None None None)])]
   \<and> resolveWinnerType
        [(TInt, TypeInfo 1 (Some ''1'') (Number (Finite 1)) None None None None),
         (TFloat, TypeInfo 1 (Some ''2'') (Number (Finite (3 / 2))) None None None None)] =
       (Some TFloat, False)
   \<and> getExampleObject (fieldMap (addNode h (addNode h freshMetadata
       [(''id'', Str ''1''), (''foo'', Number (Finite 1))])
       [(''id'', Str ''2''), (''foo'', Number (Finite (3 / 2)))])) typeName' r =
     Inr (Obj [(''foo'', Number (Finite (3 / 2)))], r)"
proof -
  have "resolveWinnerType
        [(TInt, TypeInfo 1 (Some ''1'') (Number (Finite 1)) None None None None),
         (TFloat, TypeInfo 1 (Some ''2'') (Number (Finite (3 / 2))) None None None None)] =
       (Some TFloat, False)"
    by (simp add: resolveWinnerType_def possibleTypes_def isMixedNumber_def)
  then show ?thesis
    unfolding widening_fieldMap widening_example by simp
qed

text \<open>The example object of that run is not \<open>{foo: 1}\<close>.\<close>

theorem numeric_widening_counterexample:
  "getExampleObject (fieldMap (addNode plainHost (addNode plainHost freshMetadata
       [(''id'', Str ''1''), (''foo'', Number (Finite 1))])
       [(''id'', Str ''2''), (''foo'', Number (Finite (3 / 2)))])) [] (Some []) \<noteq>
     Inr (Obj [(''foo'', Number (Finite 1))], Some [])"
  unfolding widening_fieldMap widening_example by simp

lemma conflict_fieldMap:
  assumes "\<not> looksLikeADate h ''x''"
  shows "fieldMap (addNode h (addNode h freshMetadata
       [(''id'', Str ''1''), (''foo'', Number (Finite 25))])
       [(''id'', Str ''2''), (''foo'', Str ''x'')]) =
     Some [(''foo'',
        [(TInt, TypeInfo 1 (Some ''1'') (Number (Finite 25)) None None None None),
         (TString, TypeInfo 1 (Some ''2'') (Str ''x'') None None None None)])]"
  using assms
  by (simp add: addNode_def updateTypeMetadata_def freshMetadata_def nodeFields_def
        nodeId_of_def valueAt_def updateValueDescriptor.simps Let_def orElse_def
        is32BitInteger_Finite arrayIndex_foo setProperty_def
        del: is32BitInteger.simps)

lemma conflict_example:
  "getExampleObject
     (Some [(''foo'',
        [(TInt, TypeInfo 1 (Some ''1'') (Number (Finite 25)) None None None None),
         (TString, TypeInfo 1 (Some ''2'') (Str ''x'') None None None None)])])
     typeName' (Some calls) =
   Inr (Obj [],
        Some (calls @ [(typeName' @ ''.foo'',
                        [(''number'', Number (Finite 25)), (''string'', Str ''x'')])]))"
  by (simp add: buildExampleValue.simps prepareConflictExamples.simps
        reportedValueMapper.simps resolveWinnerType_def possibleTypes_def
        isMixedNumber_def isMixOfDateAndString_def Let_def addConflict_def
        typeNameMapper_def)

text \<open>
  C5. After \<open>{id: "1", foo: 25}\<close> and \<open>{id: "2", foo: "x"}\<close>, where \<open>x\<close> does not
  look like a date, \<open>getExampleObject\<close> calls the reporter once, with the path
  of \<open>foo\<close> under the type name and the examples \<open>number\<close> 25 and \<open>string\<close>
  \<open>x\<close> in this order, and the example object has no \<open>foo\<close>.
\<close>

theorem conflict_surfaced:
  assumes "\<not> looksLikeADate h ''x''"
  shows "getExampleObject (fieldMap (addNode h (addNode h freshMetadata
       [(''id'', Str ''1''), (''foo'', Number (Finite 25))])
       [(''id'', Str ''2''), (''foo'', Str ''x'')])) typeName' (Some calls) =
     Inr (Obj [],
          Some (calls @ [(typeName' @ ''.foo'',
                          [(''number'', Number (Finite 25)), (''string'', Str ''x'')])]))"
  unfolding conflict_fieldMap [OF assms] by (rule conflict_example)

theorem conflict_surfaced_witness:
  "\<not> looksLikeADate plainHost ''x''
   \<and> getExampleObject (fieldMap (addNode plainHost (addNode plainHost freshMetadata
       [(''id'', Str ''1''), (''foo'', Number (Finite 25))])
       [(''id'', Str ''2''), (''foo'', Str ''x'')])) ''Post'' (Some []) =
     Inr (Obj [],
          Some [(''Post.foo'', [(''number'', Number (Finite 25)), (''string'', Str ''x'')])])"
proof -
  have h: "\<not> looksLikeADate plainHost ''x''"
    by (simp add: plainHost_def)
  show ?thesis
    using h conflict_surfaced [OF h, of "''Post''" "[]"] by simp
qed

subsection \<open>Structural changes\<close>

text \<open>
  For a scalar value the flag is computed from the new total alone, whatever
  the operation: it is true exactly when the total of the tag is 1 or 0 after
  the update.
\<close>

lemma structuralChange_scalar:
  assumes "getType h v key = Some t" "isScalar t"
  shows "snd (updateValueDescriptor h nodeId key v operation d0) =
     (total_of (infoAt d0 t) + deltaOf operation = 1
      \<or> total_of (infoAt d0 t) + deltaOf operation = 0)"
  using assms by (simp add: update_scalar crossing_def)

text \<open>
  C1. The flag should be true exactly when the total of the value's tag goes
  from 0 to 1 or from 1 to 0, and a delete that lowers a total from 2 to 1
  should report false. It does not: after the nodes \<open>{id: "1", foo: 1}\<close> and
  \<open>{id: "2", foo: 1}\<close> the total of \<open>int\<close> under \<open>foo\<close> is 2; deleting the second
  node lowers it to 1, and \<open>updateValueDescriptor\<close> returns the flag true, so
  that \<open>deleteNode\<close> sets \<open>dirty\<close>, though \<open>int\<close> still has a value.
\<close>

theorem structuralChange_delete_two_to_one:
  "fst (updateValueDescriptor h (Some ''2'') ''foo'' (Number (Finite 1)) Add
      (Some (fst (updateValueDescriptor h (Some ''1'') ''foo'' (Number (Finite 1)) Add None)))) =
     [(TInt, TypeInfo 2 (Some ''1'') (Number (Finite 1)) None None None None)]
   \<and> updateValueDescriptor h (Some ''2'') ''foo'' (Number (Finite 1)) Del
       (Some [(TInt, TypeInfo 2 (Some ''1'') (Number (Finite 1)) None None None None)]) =
     ([(TInt, TypeInfo 1 (Some ''1'') (Number (Finite 1)) None None None None)], True)
   \<and> fieldMap (addNode h (addNode h freshMetadata
        [(''id'', Str ''1''), (''foo'', Number (Finite 1))])
        [(''id'', Str ''2''), (''foo'', Number (Finite 1))]) =
     Some [(''foo'', [(TInt, TypeInfo 2 (Some ''1'') (Number (Finite 1)) None None None None)])]
   \<and> deleteNode h
       ((addNode h (addNode h freshMetadata
          [(''id'', Str ''1''), (''foo'', Number (Finite 1))])
          [(''id'', Str ''2''), (''foo'', Number (Finite 1))])\<lparr>dirty := False\<rparr>)
       [(''id'', Str ''2''), (''foo'', Number (Finite 1))] =
     \<lparr>ignored = False, ignoredFields = {''id''},
      fieldMap = Some [(''foo'',
        [(TInt, TypeInfo 1 (Some ''1'') (Number (Finite 1)) None None None None)])],
      dirty = True\<rparr>"
  by (simp add: addNode_def deleteNode_def updateTypeMetadata_def freshMetadata_def
        nodeFields_def nodeId_of_def valueAt_def updateValueDescriptor.simps Let_def orElse_def
        is32BitInteger_Finite arrayIndex_foo setProperty_def
        del: is32BitInteger.simps)

subsection \<open>The field with the empty name\<close>

lemma insertIndex_keys:
  "set (map fst (insertIndex i k v obj)) = insert k (set (map fst obj))"
proof (induction obj)
  case Nil
  then show ?case by simp
next
  case (Cons p obj)
  obtain k' v' where p: "p = (k', v')" by (cases p) auto
  show ?case
  proof (cases "arrayIndex k'")
    case None
    then show ?thesis by (simp add: p insert_commute)
  next
    case (Some j)
    show ?thesis
    proof (cases "j < i")
      case True
      have "set (map fst (insertIndex i k v (p # obj))) =
          insert k' (set (map fst (insertIndex i k v obj)))"
        using Some True by (simp add: p)
      then show ?thesis unfolding Cons.IH by (simp add: p insert_commute)
    next
      case False
      then show ?thesis using Some by (simp add: p insert_commute)
    qed
  qed
qed

lemma replace_keys:
  "map fst (map (\<lambda>(k', v'). if k' = k then (k', v) else (k', v')) obj) = map fst obj"
  by (induction obj) auto

lemma setProperty_keys:
  "set (map fst (setProperty obj k v)) = insert k (set (map fst obj))"
proof (cases "k \<in> set (map fst obj)")
  case True
  then show ?thesis
    unfolding setProperty_def by (simp only: if_True replace_keys) auto
next
  case False
  then show ?thesis
    unfolding setProperty_def
    by (cases "arrayIndex k") (simp_all only: if_False option.case insertIndex_keys, auto)
qed

lemma buildFields_no_empty_key:
  "buildFields fm typeName' r acc = Inr (acc', r') \<Longrightarrow> [] \<notin> set (map fst acc) \<Longrightarrow>
   [] \<notin> set (map fst acc')"
proof (induction fm arbitrary: r acc)
  case Nil
  then show ?case by simp
next
  case (Cons kd fm)
  obtain key d where kd: "kd = (key, d)" by (cases kd) auto
  from Cons.prems(1) obtain v r1 where
    b: "buildExampleValue d r False (typeName' @ ''.'' @ key) = Inr (v, r1)"
    and rest: "buildFields fm typeName' r1
       (if key \<noteq> [] \<and> v \<noteq> Null then setProperty acc key v else acc) = Inr (acc', r')"
    unfolding kd by (auto split: sum.splits)
  have "[] \<notin> set (map fst (if key \<noteq> [] \<and> v \<noteq> Null then setProperty acc key v else acc))"
    using Cons.prems(2) by (auto simp only: setProperty_keys split: if_splits)
  with Cons.IH [OF rest] show ?case .
qed

text \<open>
  C9. Whatever \<open>getExampleObject\<close> returns is an object with no property of the
  empty name: the guard \<open>key && value !== null\<close> drops the field whose name is
  the empty string, whatever its example is.
\<close>

theorem getExampleObject_omits_empty_key:
  assumes "getExampleObject fm typeName' r = Inr (v, r')"
  shows "\<exists>kvs. v = Obj kvs \<and> [] \<notin> set (map fst kvs)"
proof (cases fm)
  case None
  with assms show ?thesis by simp
next
  case (Some f)
  with assms obtain acc where b: "buildFields f typeName' r [] = Inr (acc, r')" and v: "v = Obj acc"
    by (auto split: sum.splits)
  from buildFields_no_empty_key [OF b] have "[] \<notin> set (map fst acc)" by simp
  with v show ?thesis by blast
qed

text \<open>
  A field map with the same descriptor under the empty name and under \<open>foo\<close>:
  the example of the descriptor is 5, and only \<open>foo\<close> is in the example object.
\<close>

theorem getExampleObject_omits_empty_key_witness:
  "getExampleObject
     (Some [([], [(TInt, TypeInfo 1 (Some ''1'') (Number (Finite 5)) None None None None)]),
            (''foo'', [(TInt, TypeInfo 1 (Some ''1'') (Number (Finite 5)) None None None None)])])
     ''Post'' None = Inr (Obj [(''foo'', Number (Finite 5))], None)
   \<and> buildExampleValue [(TInt, TypeInfo 1 (Some ''1'') (Number (Finite 5)) None None None None)]
       None False ''Post.'' = Inr (Number (Finite 5), None)
   \<and> (\<exists>kvs. Obj [(''foo'', Number (Finite 5))] = Obj kvs \<and> [] \<notin> set (map fst kvs))"
proof -
  have run: "getExampleObject
     (Some [([], [(TInt, TypeInfo 1 (Some ''1'') (Number (Finite 5)) None None None None)]),
            (''foo'', [(TInt, TypeInfo 1 (Some ''1'') (Number (Finite 5)) None None None None)])])
     ''Post'' None = Inr (Obj [(''foo'', Number (Finite 5))], None)"
    by (simp add: buildExampleValue.simps resolveWinnerType_def possibleTypes_def Let_def
          setProperty_def arrayIndex_def isDigit_def)
  have one: "buildExampleValue
       [(TInt, TypeInfo 1 (Some ''1'') (Number (Finite 5)) None None None None)]
       None False ''Post.'' = Inr (Number (Finite 5), None)"
    by (simp add: buildExampleValue.simps resolveWinnerType_def possibleTypes_def Let_def)
  show ?thesis
    using run one getExampleObject_omits_empty_key [OF run] by simp
qed

subsection \<open>Totals that are not positive\<close>

lemma getInfo_withoutType:
  "getInfo (withoutType d t) t' = (if t' = t then None else getInfo d t')"
  unfolding withoutType_def by (induction d) auto

lemma keys_withoutType: "map fst (withoutType d t) = filter (\<lambda>t'. t' \<noteq> t) (map fst d)"
  unfolding withoutType_def by (induction d) auto

lemma possibleTypes_positive:
  "t' \<in> set (possibleTypes d) \<Longrightarrow> \<exists>ti. getInfo d t' = Some ti \<and> 0 < total_of ti"
  by (auto simp add: possibleTypes_def split: option.splits)

lemma possibleTypes_withoutType:
  assumes "getInfo d t = Some ti" "total_of ti \<le> 0"
  shows "possibleTypes (withoutType d t) = possibleTypes d"
proof -
  have "filter (\<lambda>t'. case getInfo (withoutType d t) t' of None \<Rightarrow> False | Some ti \<Rightarrow> 0 < total_of ti)
          (filter (\<lambda>t'. t' \<noteq> t) (map fst d)) =
        filter (\<lambda>t'. case getInfo d t' of None \<Rightarrow> False | Some ti \<Rightarrow> 0 < total_of ti) (map fst d)"
    unfolding filter_filter
    by (rule filter_cong) (use assms in \<open>auto simp add: getInfo_withoutType\<close>)
  then show ?thesis
    by (simp only: possibleTypes_def keys_withoutType)
qed

lemma not_possible:
  assumes "getInfo d t = Some ti" "total_of ti \<le> 0"
  shows "t \<notin> set (possibleTypes d)"
  using assms possibleTypes_positive [of t d] by auto

lemma isMixedNumber_withoutType:
  assumes "getInfo d t = Some ti" "total_of ti \<le> 0"
  shows "isMixedNumber (withoutType d t) = isMixedNumber d"
  using assms by (auto simp add: isMixedNumber_def getInfo_withoutType split: option.splits)

lemma isMixOfDateAndString_withoutType:
  assumes "getInfo d t = Some ti" "total_of ti \<le> 0"
  shows "isMixOfDateAndString (withoutType d t) = isMixOfDateAndString d"
  using assms by (auto simp add: isMixOfDateAndString_def getInfo_withoutType split: option.splits)

lemma hasOnlyEmptyStrings_withoutType:
  assumes "getInfo d t = Some ti" "total_of ti \<le> 0" "isMixOfDateAndString d"
  shows "hasOnlyEmptyStrings (withoutType d t) = hasOnlyEmptyStrings d"
proof -
  have "t \<noteq> TString"
    using assms by (auto simp add: isMixOfDateAndString_def split: option.splits)
  then show ?thesis
    by (simp add: hasOnlyEmptyStrings_def getInfo_withoutType)
qed

lemma resolveWinnerType_withoutType:
  assumes "getInfo d t = Some ti" "total_of ti \<le> 0"
  shows "resolveWinnerType (withoutType d t) = resolveWinnerType d"
proof (cases "isMixOfDateAndString d")
  case True
  show ?thesis
    unfolding resolveWinnerType_def possibleTypes_withoutType [OF assms]
      isMixedNumber_withoutType [OF assms] isMixOfDateAndString_withoutType [OF assms]
      hasOnlyEmptyStrings_withoutType [OF assms True]
    by (rule refl)
next
  case False
  then show ?thesis
    unfolding resolveWinnerType_def possibleTypes_withoutType [OF assms]
      isMixedNumber_withoutType [OF assms] isMixOfDateAndString_withoutType [OF assms]
    by (simp add: Let_def)
qed

lemma winner_is_possible:
  assumes "resolveWinnerType d = (Some t', c)"
  shows "\<exists>ti. getInfo d t' = Some ti \<and> 0 < total_of ti"
proof -
  consider (one) "length (possibleTypes d) = 1" "t' = hd (possibleTypes d)"
    | (num) "isMixedNumber d" "t' = TFloat"
    | (mix) "isMixOfDateAndString d" "t' = TDate \<or> t' = TString"
    using assms by (auto simp add: resolveWinnerType_def Let_def split: if_splits)
  then show ?thesis
  proof cases
    case one
    then have "t' \<in> set (possibleTypes d)" by (cases "possibleTypes d") auto
    then show ?thesis by (rule possibleTypes_positive)
  next
    case num
    then show ?thesis by (auto simp add: isMixedNumber_def split: option.splits)
  next
    case mix
    then show ?thesis by (auto simp add: isMixOfDateAndString_def split: option.splits)
  qed
qed

lemma winner_not_removed:
  assumes "getInfo d t = Some ti" "total_of ti \<le> 0"
  shows "fst (resolveWinnerType d) \<noteq> Some t"
proof
  assume "fst (resolveWinnerType d) = Some t"
  then have "resolveWinnerType d = (Some t, snd (resolveWinnerType d))"
    by (metis prod.collapse)
  from winner_is_possible [OF this] assms show False by auto
qed

lemma reportedValueMapper_withoutType:
  "t' \<noteq> t \<Longrightarrow> reportedValueMapper (withoutType d t) t' = reportedValueMapper d t'"
  by (simp add: reportedValueMapper.simps getInfo_withoutType)

lemma groupKey_withoutType: "t' \<noteq> t \<Longrightarrow> groupKey (withoutType d t) t' = groupKey d t'"
  by (simp add: groupKey_def getInfo_withoutType)

lemma groupBy_cong:
  assumes "\<And>x. x \<in> set ts \<Longrightarrow> f x = g x"
  shows "groupBy ts f = groupBy ts g"
proof -
  have "foldl (\<lambda>groups t.
        case getProperty groups (f t) of
          None \<Rightarrow> setProperty groups (f t) [t]
        | Some grp \<Rightarrow> setProperty groups (f t) (grp @ [t])) acc ts =
      foldl (\<lambda>groups t.
        case getProperty groups (g t) of
          None \<Rightarrow> setProperty groups (g t) [t]
        | Some grp \<Rightarrow> setProperty groups (g t) (grp @ [t])) acc ts" for acc
    using assms
  proof (induction ts arbitrary: acc)
    case Nil
    then show ?case by simp
  next
    case (Cons a ts)
    have fa: "f a = g a" using Cons.prems by simp
    have rest: "\<And>x. x \<in> set ts \<Longrightarrow> f x = g x" using Cons.prems by simp
    show ?case
      unfolding foldl_Cons fa by (rule Cons.IH [OF rest])
  qed
  then show ?thesis by (simp add: groupBy_def)
qed

lemma setProperty_entries:
  "(k', v') \<in> set (setProperty obj k v) \<Longrightarrow> (k', v') \<in> set obj \<or> v' = v"
proof -
  assume a: "(k', v') \<in> set (setProperty obj k v)"
  have ins: "(k', v') \<in> set (insertIndex i k v obj) \<Longrightarrow> (k', v') \<in> set obj \<or> v' = v" for i
    by (induction obj) (auto split: option.splits if_splits)
  show ?thesis
  proof (cases "k \<in> set (map fst obj)")
    case True
    with a show ?thesis unfolding setProperty_def by (auto split: if_splits)
  next
    case False
    with a ins show ?thesis
      unfolding setProperty_def by (cases "arrayIndex k") auto
  qed
qed

lemma groupBy_members:
  assumes "(k, grp) \<in> set (groupBy ts f)"
  shows "set grp \<subseteq> set ts"
proof -
  have "\<forall>(k, grp) \<in> set acc. set grp \<subseteq> S \<Longrightarrow> set ts \<subseteq> S \<Longrightarrow>
      \<forall>(k, grp) \<in> set (foldl (\<lambda>groups t.
        case getProperty groups (f t) of
          None \<Rightarrow> setProperty groups (f t) [t]
        | Some grp \<Rightarrow> setProperty groups (f t) (grp @ [t])) acc ts). set grp \<subseteq> S" for acc S
  proof (induction ts arbitrary: acc)
    case Nil
    then show ?case by simp
  next
    case (Cons t ts)
    have t: "t \<in> S" and ts: "set ts \<subseteq> S" using Cons.prems(2) by simp_all
    let ?acc = "case getProperty acc (f t) of
          None \<Rightarrow> setProperty acc (f t) [t]
        | Some grp \<Rightarrow> setProperty acc (f t) (grp @ [t])"
    have "\<forall>(k, grp) \<in> set ?acc. set grp \<subseteq> S"
    proof (cases "getProperty acc (f t)")
      case None
      then show ?thesis
        using Cons.prems(1) t by (auto dest!: setProperty_entries)
    next
      case (Some g0)
      have "(f t, g0) \<in> set acc"
        using Some by (induction acc) (auto split: if_splits)
      then have "set g0 \<subseteq> S" using Cons.prems(1) by auto
      then show ?thesis
        using Some Cons.prems(1) t by (auto dest!: setProperty_entries)
    qed
    from Cons.IH [OF this ts] show ?case by simp
  qed
  from this [of "[]" "set ts"] assms show ?thesis
    by (auto simp add: groupBy_def)
qed

lemma prepareConflictExamples_withoutType:
  assumes "getInfo d t = Some ti" "total_of ti \<le> 0"
  shows "prepareConflictExamples (withoutType d t) isArrayItem = prepareConflictExamples d isArrayItem"
proof -
  note nt = not_possible [OF assms]
  have keys: "groupBy (possibleTypes d) (groupKey (withoutType d t)) =
      groupBy (possibleTypes d) (groupKey d)"
  proof (rule groupBy_cong)
    fix x assume "x \<in> set (possibleTypes d)"
    with nt have "x \<noteq> t" by auto
    then show "groupKey (withoutType d t) x = groupKey d x"
      by (rule groupKey_withoutType)
  qed
  have flat: "mapE (\<lambda>t'. case reportedValueMapper (withoutType d t) t' of
              Inl e \<Rightarrow> Inl e | Inr v \<Rightarrow> Inr (typeNameMapper t', v)) (possibleTypes d) =
      mapE (\<lambda>t'. case reportedValueMapper d t' of
              Inl e \<Rightarrow> Inl e | Inr v \<Rightarrow> Inr (typeNameMapper t', v)) (possibleTypes d)"
  proof (rule mapE_cong [OF refl])
    fix x assume "x \<in> set (possibleTypes d)"
    with nt have "x \<noteq> t" by auto
    then show "(case reportedValueMapper (withoutType d t) x of
              Inl e \<Rightarrow> Inl e | Inr v \<Rightarrow> Inr (typeNameMapper x, v)) =
          (case reportedValueMapper d x of
              Inl e \<Rightarrow> Inl e | Inr v \<Rightarrow> Inr (typeNameMapper x, v))"
      by (simp add: reportedValueMapper_withoutType)
  qed
  have grouped: "mapE (\<lambda>(nodeId, g).
            case mapE (reportedValueMapper (withoutType d t)) g of
              Inl e \<Rightarrow> Inl e
            | Inr vs \<Rightarrow> Inr (''['' @ join '','' (map typeNameMapper g) @ '']'', Arr vs))
          (groupBy (possibleTypes d) (groupKey d)) =
      mapE (\<lambda>(nodeId, g).
            case mapE (reportedValueMapper d) g of
              Inl e \<Rightarrow> Inl e
            | Inr vs \<Rightarrow> Inr (''['' @ join '','' (map typeNameMapper g) @ '']'', Arr vs))
          (groupBy (possibleTypes d) (groupKey d))"
  proof (rule mapE_cong [OF refl])
    fix x assume x: "x \<in> set (groupBy (possibleTypes d) (groupKey d))"
    obtain nodeId g where xg: "x = (nodeId, g)" by (cases x) auto
    have "set g \<subseteq> set (possibleTypes d)"
      using x groupBy_members unfolding xg by blast
    then have "\<And>y. y \<in> set g \<Longrightarrow> y \<noteq> t" using nt by auto
    then have "mapE (reportedValueMapper (withoutType d t)) g = mapE (reportedValueMapper d) g"
      by (intro mapE_cong [OF refl]) (simp add: reportedValueMapper_withoutType)
    then show "(case x of (nodeId, g) \<Rightarrow>
            case mapE (reportedValueMapper (withoutType d t)) g of
              Inl e \<Rightarrow> Inl e
            | Inr vs \<Rightarrow> Inr (''['' @ join '','' (map typeNameMapper g) @ '']'', Arr vs)) =
          (case x of (nodeId, g) \<Rightarrow>
            case mapE (reportedValueMapper d) g of
              Inl e \<Rightarrow> Inl e
            | Inr vs \<Rightarrow> Inr (''['' @ join '','' (map typeNameMapper g) @ '']'', Arr vs))"
      by (simp add: xg)
  qed
  show ?thesis
    unfolding prepareConflictExamples.simps [of "withoutType d t"]
      prepareConflictExamples.simps [of d] possibleTypes_withoutType [OF assms] Let_def
      keys flat grouped
    by (rule refl)
qed

lemma buildExampleValue_withoutType:
  assumes "getInfo d t = Some ti" "total_of ti \<le> 0"
  shows "buildExampleValue (withoutType d t) r isArrayItem path = buildExampleValue d r isArrayItem path"
proof -
  obtain w c where res: "resolveWinnerType d = (w, c)" by (cases "resolveWinnerType d") auto
  have res': "resolveWinnerType (withoutType d t) = (w, c)"
    using resolveWinnerType_withoutType [OF assms] res by simp
  show ?thesis
  proof (cases w)
    case None
    show ?thesis
      unfolding buildExampleValue.simps [of "withoutType d t" r isArrayItem path]
        buildExampleValue.simps [of d r isArrayItem path]
        res res' None prepareConflictExamples_withoutType [OF assms] Let_def prod.case
        option.case
      by (rule refl)
  next
    case (Some t')
    have "t' \<noteq> t" using winner_not_removed [OF assms] res Some by auto
    then have g: "getInfo (withoutType d t) t' = getInfo d t'"
      by (simp add: getInfo_withoutType)
    have mix: "isMixOfDateAndString (withoutType d t) = isMixOfDateAndString d"
      by (rule isMixOfDateAndString_withoutType [OF assms])
    show ?thesis
    proof (cases "isMixOfDateAndString d")
      case True
      show ?thesis
        unfolding buildExampleValue.simps [of "withoutType d t" r isArrayItem path]
          buildExampleValue.simps [of d r isArrayItem path]
          res res' Some prepareConflictExamples_withoutType [OF assms] Let_def prod.case
          option.case g mix hasOnlyEmptyStrings_withoutType [OF assms True]
        by (rule refl)
    next
      case False
      then have nomix: "isMixOfDateAndString d = False" by simp
      show ?thesis
        unfolding buildExampleValue.simps [of "withoutType d t" r isArrayItem path]
          buildExampleValue.simps [of d r isArrayItem path]
          res res' Some prepareConflictExamples_withoutType [OF assms] Let_def prod.case
          option.case g mix nomix if_False
        by (rule refl)
    qed
  qed
qed

lemma isEmpty_withoutType:
  assumes "getInfo d t = Some ti" "total_of ti \<le> 0"
  shows "isEmpty (m\<lparr>fieldMap := Some (pre @ (f, withoutType d t) # post)\<rparr>) =
     isEmpty (m\<lparr>fieldMap := Some (pre @ (f, d) # post)\<rparr>)"
  by (simp add: isEmpty_def possibleTypes_withoutType [OF assms])

lemma possibleTypes_nonpositive:
  assumes "\<forall>(t, ti) \<in> set d. total_of ti \<le> 0"
  shows "possibleTypes d = []"
proof -
  have "getInfo d t = Some ti \<Longrightarrow> (t, ti) \<in> set d" for t ti
    by (induction d) (auto split: if_splits)
  with assms have np: "getInfo d t = Some ti \<Longrightarrow> total_of ti \<le> 0" for t ti
    by blast
  have "\<not> (case getInfo d t of None \<Rightarrow> False | Some ti \<Rightarrow> 0 < total_of ti)" for t
  proof (cases "getInfo d t")
    case None
    then show ?thesis by simp
  next
    case (Some ti)
    with np [OF Some] show ?thesis by simp
  qed
  then show ?thesis
    unfolding possibleTypes_def by simp
qed

lemma isEmpty_nonpositive:
  assumes "\<forall>(f, d) \<in> set fm. \<forall>(t, ti) \<in> set d. total_of ti \<le> 0"
  shows "isEmpty (m\<lparr>fieldMap := Some fm\<rparr>) = Inr True"
  using assms possibleTypes_nonpositive
  by (auto simp add: isEmpty_def list_all_iff)

lemma winner_no_conflict: "resolveWinnerType d = (Some t', c) \<Longrightarrow> c = False"
  by (auto simp add: resolveWinnerType_def Let_def split: if_splits)

lemma positiveIds_nodeCount:
  "positiveIds ns = Arr (map Str (filter (\<lambda>k. 0 < nodeCount ns k) (map fst ns)))"
proof -
  have "(\<lambda>key. case getProperty ns key of None \<Rightarrow> False | Some n \<Rightarrow> 0 < n) =
      (\<lambda>k. 0 < nodeCount ns k)"
    by (rule ext) (simp add: nodeCount_def split: option.splits)
  then show ?thesis by (simp add: positiveIds_def)
qed

lemma listOfUnion_example:
  assumes "resolveWinnerType d = (Some TListOfUnion, c)" "getInfo d TListOfUnion = Some li"
  shows "buildExampleValue d r isArrayItem path =
     Inr (Arr (map Str (filter
            (\<lambda>k. 0 < nodeCount (case nodes li of None \<Rightarrow> [] | Some ns \<Rightarrow> ns) k)
            (map fst (case nodes li of None \<Rightarrow> [] | Some ns \<Rightarrow> ns)))), r)"
proof -
  have c: "c = False" using assms(1) by (rule winner_no_conflict)
  show ?thesis
    unfolding buildExampleValue.simps [of d r isArrayItem path] assms(1) c Let_def prod.case
      option.case assms(2)
    by (simp add: positiveIds_nodeCount)
qed

text \<open>
  C10. A type-info whose total is 0 or negative counts for nothing in what is
  read from a descriptor: its tag is not a possible type and is never the
  winner, and \<open>resolveWinnerType\<close>, \<open>prepareConflictExamples\<close>,
  \<open>buildExampleValue\<close> and \<open>isEmpty\<close> give what they give on the descriptor with
  the tag taken out; a field map in which no total is positive is empty; and
  the example of a \<open>listOfUnion\<close> winner is the list of the ids whose count is
  positive, in the order of \<open>nodes\<close>.
\<close>

theorem nonpositive_total_is_absent:
  assumes "getInfo d t = Some ti" and "total_of ti \<le> 0"
  shows "t \<notin> set (possibleTypes d)
    \<and> fst (resolveWinnerType d) \<noteq> Some t
    \<and> resolveWinnerType (withoutType d t) = resolveWinnerType d
    \<and> prepareConflictExamples (withoutType d t) isArrayItem =
        prepareConflictExamples d isArrayItem
    \<and> buildExampleValue (withoutType d t) r isArrayItem path =
        buildExampleValue d r isArrayItem path
    \<and> isEmpty (m\<lparr>fieldMap := Some (pre @ (f, withoutType d t) # post)\<rparr>) =
        isEmpty (m\<lparr>fieldMap := Some (pre @ (f, d) # post)\<rparr>)
    \<and> ((\<forall>(f, d) \<in> set fm. \<forall>(t, ti) \<in> set d. total_of ti \<le> 0) \<longrightarrow>
        isEmpty (m\<lparr>fieldMap := Some fm\<rparr>) = Inr True)
    \<and> (resolveWinnerType d' = (Some TListOfUnion, c) \<and> getInfo d' TListOfUnion = Some li \<longrightarrow>
        buildExampleValue d' r isArrayItem path =
          Inr (Arr (map Str (filter
                 (\<lambda>k. 0 < nodeCount (case nodes li of None \<Rightarrow> [] | Some ns \<Rightarrow> ns) k)
                 (map fst (case nodes li of None \<Rightarrow> [] | Some ns \<Rightarrow> ns)))), r))"
  using not_possible [OF assms] winner_not_removed [OF assms]
    resolveWinnerType_withoutType [OF assms]
    prepareConflictExamples_withoutType [OF assms]
    buildExampleValue_withoutType [OF assms]
    isEmpty_withoutType [OF assms]
    isEmpty_nonpositive [of fm m] listOfUnion_example [of d' c li]
  by blast

text \<open>
  The descriptor of the header of the source after a delete, with the total of
  \<open>string\<close> driven to -1: the winner is \<open>int\<close> and the example 25, with or
  without the \<open>string\<close> entry; and a reference list with the counts 1, 0 and
  -1, of which only the first id is in the example.
\<close>

theorem nonpositive_total_is_absent_witness:
  "getInfo
     [(TInt, TypeInfo 1 (Some ''1'') (Number (Finite 25)) None None None None),
      (TString, TypeInfo (- 1) None (Str ''conflict'') None None None None)] TString =
     Some (TypeInfo (- 1) None (Str ''conflict'') None None None None)
   \<and> total_of (TypeInfo (- 1) None (Str ''conflict'') None None None None) \<le> 0
   \<and> resolveWinnerType
      [(TInt, TypeInfo 1 (Some ''1'') (Number (Finite 25)) None None None None),
       (TString, TypeInfo (- 1) None (Str ''conflict'') None None None None)] = (Some TInt, False)
   \<and> buildExampleValue
      [(TInt, TypeInfo 1 (Some ''1'') (Number (Finite 25)) None None None None),
       (TString, TypeInfo (- 1) None (Str ''conflict'') None None None None)]
      (Some []) False ''Post.foo'' = Inr (Number (Finite 25), Some [])
   \<and> buildExampleValue
      (withoutType
        [(TInt, TypeInfo 1 (Some ''1'') (Number (Finite 25)) None None None None),
         (TString, TypeInfo (- 1) None (Str ''conflict'') None None None None)] TString)
      (Some []) False ''Post.foo'' = Inr (Number (Finite 25), Some [])
   \<and> isEmpty \<lparr>ignored = False, ignoredFields = {}, fieldMap = Some
        [(''foo'', [(TString, TypeInfo 0 None (Str ''conflict'') None None None None)]),
         (''bar'', [(TInt, TypeInfo (- 1) None (Number (Finite 25)) None None None None)])],
        dirty = False\<rparr> = Inr True
   \<and> resolveWinnerType
      [(TListOfUnion, TypeInfo 1 (Some ''1'') Undefined None None None
          (Some [(''a'', 1), (''b'', 0), (''c'', - 1)]))] = (Some TListOfUnion, False)
   \<and> buildExampleValue
      [(TListOfUnion, TypeInfo 1 (Some ''1'') Undefined None None None
          (Some [(''a'', 1), (''b'', 0), (''c'', - 1)]))]
      (Some []) False ''Post.foo'' = Inr (Arr [Str ''a''], Some [])"
proof -
  let ?d = "[(TInt, TypeInfo 1 (Some ''1'') (Number (Finite 25)) None None None None),
      (TString, TypeInfo (- 1) None (Str ''conflict'') None None None None)]"
  let ?ti = "TypeInfo (- 1) None (Str ''conflict'') None None None None"
  let ?fm = "[(''foo'', [(TString, TypeInfo 0 None (Str ''conflict'') None None None None)]),
         (''bar'', [(TInt, TypeInfo (- 1) None (Number (Finite 25)) None None None None)])]"
  let ?li = "TypeInfo 1 (Some ''1'') Undefined None None None
          (Some [(''a'', 1), (''b'', 0), (''c'', - 1)])"
  let ?m = "\<lparr>ignored = False, ignoredFields = {}, fieldMap = None, dirty = False\<rparr>"
  have g: "getInfo ?d TString = Some ?ti" and tot: "total_of ?ti \<le> 0"
    by simp_all
  have res: "resolveWinnerType ?d = (Some TInt, False)"
    by (simp add: resolveWinnerType_def possibleTypes_def)
  have ex: "buildExampleValue ?d (Some []) False ''Post.foo'' = Inr (Number (Finite 25), Some [])"
    by (simp add: buildExampleValue.simps res)
  have nonpos: "\<forall>(f, d) \<in> set ?fm. \<forall>(t, ti) \<in> set d. total_of ti \<le> 0"
    by simp
  have res': "resolveWinnerType [(TListOfUnion, ?li)] = (Some TListOfUnion, False)"
    by (simp add: resolveWinnerType_def possibleTypes_def)
  have gl: "getInfo [(TListOfUnion, ?li)] TListOfUnion = Some ?li"
    by simp
  note inst = nonpositive_total_is_absent [OF g tot, where r = "Some []" and isArrayItem = False
      and path = "''Post.foo''" and m = ?m and pre = "[]" and f = "''foo''" and post = "[]"
      and fm = ?fm and d' = "[(TListOfUnion, ?li)]" and c = False and li = ?li]
  have ids: "buildExampleValue [(TListOfUnion, ?li)] (Some []) False ''Post.foo'' =
      Inr (Arr [Str ''a''], Some [])"
    using inst res' gl by (simp add: nodeCount_def)
  have empty: "isEmpty (?m\<lparr>fieldMap := Some ?fm\<rparr>) = Inr True"
    using inst nonpos by blast
  have without: "buildExampleValue (withoutType ?d TString) (Some []) False ''Post.foo'' =
      Inr (Number (Finite 25), Some [])"
    using inst ex by simp
  show ?thesis
    using inst g tot res ex without empty res' ids by simp
qed

subsection \<open>Adding a node and deleting it again\<close>

lemma counterAt_Nil: "counterAt [] c = 0"
  by (cases c) simp_all

lemma counterAt_descOf: "counterAt (descOf d0) c = itemCounter d0 c"
  by (cases d0) (simp_all add: descOf_def itemCounter_def counterAt_Nil)

lemma propCounter_setProperty:
  "propCounter (setProperty ps key d) k c = (if k = key then counterAt d c else propCounter ps k c)"
  by (simp add: propCounter_def getProperty_setProperty)

lemma counterAt_setInfo:
  "counterAt (setInfo d t ti) c =
     (case c of
        TotalOf t' \<Rightarrow> if t' = t then total_of ti else counterAt d c
      | NodeCount k \<Rightarrow>
          if t = TListOfUnion then nodeCount (case nodes ti of None \<Rightarrow> [] | Some n \<Rightarrow> n) k
          else counterAt d c
      | InProp k c' \<Rightarrow>
          if t = TObject then propCounter (case props ti of None \<Rightarrow> [] | Some p \<Rightarrow> p) k c'
          else counterAt d c
      | InItem c' \<Rightarrow> if t = TArray then itemCounter (item ti) c' else counterAt d c)"
  by (cases c)
     (simp_all add: getInfo_setInfo nodeCount_def propCounter_def itemCounter_def
        split: option.splits)

lemma counterAt_infoAt:
  "counterAt (descOf d0) c =
     (case c of
        TotalOf t \<Rightarrow> total_of (infoAt d0 t)
      | NodeCount k \<Rightarrow>
          nodeCount (case nodes (infoAt d0 TListOfUnion) of None \<Rightarrow> [] | Some n \<Rightarrow> n) k
      | InProp k c' \<Rightarrow>
          propCounter (case props (infoAt d0 TObject) of None \<Rightarrow> [] | Some p \<Rightarrow> p) k c'
      | InItem c' \<Rightarrow> itemCounter (item (infoAt d0 TArray)) c')"
  by (cases c)
     (simp_all add: infoAt_def nodeCount_def propCounter_def itemCounter_def
        split: option.splits)

lemma nodeCount_read:
  "(case getProperty ns k of None \<Rightarrow> 0 | Some c \<Rightarrow> if c = 0 then 0 else c) = nodeCount ns k"
  by (simp add: nodeCount_def split: option.splits)

lemma nodeCount_setProperty:
  "nodeCount (setProperty ns key n) k = (if k = key then n else nodeCount ns k)"
  by (simp add: nodeCount_def getProperty_setProperty)

lemma updateNodes_counts:
  "nodeCount (fst (updateNodes h delta xs (ns, b))) k =
     nodeCount ns k + delta * int (length (filter (\<lambda>x. propertyKey h x = k) xs))"
proof (induction xs arbitrary: ns b)
  case Nil
  then show ?case by simp
next
  case (Cons x xs)
  show ?case
    unfolding updateNodes.simps Let_def nodeCount_read Cons.IH nodeCount_setProperty
    by (simp add: algebra_simps)
qed

lemma updateProps_counters:
  assumes "\<And>key v nodeId d0 c. (key, v) \<in> set kvs \<Longrightarrow>
      counterAt (fst (updateValueDescriptor h nodeId key v operation d0)) c =
        counterAt (descOf d0) c + deltaOf operation * occurrences h key v c"
  shows "propCounter (fst (updateProps h nodeId operation kvs (ps, b))) k c =
     propCounter ps k c +
       deltaOf operation *
         sum_list (map (\<lambda>(k', v'). if k' = k then occurrences h k' v' c else 0) kvs)"
  using assms
proof (induction kvs arbitrary: ps b)
  case Nil
  then show ?case by simp
next
  case (Cons kv kvs)
  obtain key v where kv: "kv = (key, v)" by (cases kv) auto
  obtain pd pb where u: "updateValueDescriptor h nodeId key v operation (getProperty ps key) = (pd, pb)"
    by (cases "updateValueDescriptor h nodeId key v operation (getProperty ps key)") auto
  have pd: "counterAt pd c = propCounter ps key c + deltaOf operation * occurrences h key v c"
    using Cons.prems [of key v nodeId "getProperty ps key" c] u
    by (simp add: kv counterAt_descOf itemCounter_def propCounter_def)
  have rest: "propCounter (fst (updateProps h nodeId operation kvs (setProperty ps key pd, b \<or> pb))) k c =
      propCounter (setProperty ps key pd) k c +
        deltaOf operation *
          sum_list (map (\<lambda>(k', v'). if k' = k then occurrences h k' v' c else 0) kvs)"
    by (rule Cons.IH) (use Cons.prems in auto)
  show ?case
    using rest pd by (simp add: kv u propCounter_setProperty algebra_simps)
qed

lemma updateItems_counters:
  assumes "\<And>v nodeId d0 c. v \<in> set xs \<Longrightarrow>
      counterAt (fst (updateValueDescriptor h nodeId key v operation d0)) c =
        counterAt (descOf d0) c + deltaOf operation * occurrences h key v c"
  shows "itemCounter (fst (updateItems h nodeId key operation xs (it, b))) c =
     itemCounter it c +
       deltaOf operation * sum_list (map (\<lambda>x. occurrences h key x c) xs)"
  using assms
proof (induction xs arbitrary: it b)
  case Nil
  then show ?case by simp
next
  case (Cons x xs)
  obtain xd xb where u: "updateValueDescriptor h nodeId key x operation it = (xd, xb)"
    by (cases "updateValueDescriptor h nodeId key x operation it") auto
  have xd: "counterAt xd c = itemCounter it c + deltaOf operation * occurrences h key x c"
    using Cons.prems [of x nodeId it c] u by (simp add: counterAt_descOf)
  have rest: "itemCounter (fst (updateItems h nodeId key operation xs (Some xd, b \<or> xb))) c =
      itemCounter (Some xd) c +
        deltaOf operation * sum_list (map (\<lambda>x. occurrences h key x c) xs)"
    by (rule Cons.IH) (use Cons.prems in auto)
  show ?case
    using rest xd by (simp add: u itemCounter_def algebra_simps)
qed

lemma occurrences_null: "getType h v key = None \<Longrightarrow> occurrences h key v c = 0"
  by (cases c) simp_all

lemma update_counters_null:
  assumes "getType h v key = None"
  shows "counterAt (fst (updateValueDescriptor h nodeId key v operation d0)) c =
     counterAt (descOf d0) c + deltaOf operation * occurrences h key v c"
  using assms by (simp add: update_null occurrences_null)

lemma update_counters_scalar:
  assumes "getType h v key = Some t" "isScalar t"
  shows "counterAt (fst (updateValueDescriptor h nodeId key v operation d0)) c =
     counterAt (descOf d0) c + deltaOf operation * occurrences h key v c"
  using assms
  by (cases c)
     (auto simp add: update_scalar counterAt_setInfo counterAt_infoAt isScalar_def
        simp del: counterAt.simps)

lemma update_counters_plain:
  assumes "\<And>xs. v \<noteq> Arr xs" "\<And>kvs. v \<noteq> Obj kvs"
  shows "counterAt (fst (updateValueDescriptor h nodeId key v operation d0)) c =
     counterAt (descOf d0) c + deltaOf operation * occurrences h key v c"
proof (cases "getType h v key")
  case None
  then show ?thesis by (rule update_counters_null)
next
  case (Some t)
  have "isScalar t"
    unfolding isScalar_def
    using Some assms getType_TObject getType_TArray getType_TListOfUnion by blast
  with Some show ?thesis by (rule update_counters_scalar)
qed

lemma update_counters:
  "counterAt (fst (updateValueDescriptor h nodeId key v operation d0)) c =
     counterAt (descOf d0) c + deltaOf operation * occurrences h key v c"
proof (induction v arbitrary: nodeId key d0 c)
  case (Arr xs)
  have IH: "\<And>v nodeId key d0 c. v \<in> set xs \<Longrightarrow>
      counterAt (fst (updateValueDescriptor h nodeId key v operation d0)) c =
        counterAt (descOf d0) c + deltaOf operation * occurrences h key v c"
    using Arr by blast
  have "getType h (Arr xs) key = None \<or> getType h (Arr xs) key = Some TListOfUnion
      \<or> getType h (Arr xs) key = Some TArray"
    by simp
  then show ?case
  proof (elim disjE)
    assume null: "getType h (Arr xs) key = None"
    then show ?thesis by (rule update_counters_null)
  next
    assume list: "getType h (Arr xs) key = Some TListOfUnion"
    show ?thesis
      by (cases c)
         (simp_all add: update_listOfUnion [OF list] list counterAt_setInfo counterAt_infoAt
            updateNodes_counts del: counterAt.simps getType.simps)
  next
    assume array: "getType h (Arr xs) key = Some TArray"
    show ?thesis
      by (cases c)
         (simp_all add: update_array [OF array] array counterAt_setInfo counterAt_infoAt
            updateItems_counters [OF IH] del: counterAt.simps getType.simps)
  qed
next
  case (Obj kvs)
  have IH: "\<And>k v nodeId key d0 c. (k, v) \<in> set kvs \<Longrightarrow>
      counterAt (fst (updateValueDescriptor h nodeId key v operation d0)) c =
        counterAt (descOf d0) c + deltaOf operation * occurrences h key v c"
    using Obj by (metis snds.intros snd_conv)
  have "getType h (Obj kvs) key = None \<or> getType h (Obj kvs) key = Some TObject"
    by simp
  then show ?case
  proof (elim disjE)
    assume null: "getType h (Obj kvs) key = None"
    then show ?thesis by (rule update_counters_null)
  next
    assume object: "getType h (Obj kvs) key = Some TObject"
    show ?thesis
      by (cases c)
         (simp_all add: update_object [OF object] object counterAt_setInfo counterAt_infoAt
            updateProps_counters [OF IH] del: counterAt.simps getType.simps)
  qed
qed (simp_all add: update_counters_plain)

lemma updateFields_counters:
  "propCounter (fst (updateFields h node operation fs (fm, b))) k c =
     propCounter fm k c +
       deltaOf operation *
         sum_list (map (\<lambda>f. if f = k then occurrences h f (valueAt node f) c else 0) fs)"
proof (induction fs arbitrary: fm b)
  case Nil
  then show ?case by simp
next
  case (Cons f fs)
  obtain fd fb where u:
    "updateValueDescriptor h (nodeId_of node) f (valueAt node f) operation (getProperty fm f) = (fd, fb)"
    by (cases "updateValueDescriptor h (nodeId_of node) f (valueAt node f) operation
          (getProperty fm f)") auto
  have fd: "counterAt fd c = propCounter fm f c + deltaOf operation * occurrences h f (valueAt node f) c"
    using update_counters [of h "nodeId_of node" f "valueAt node f" operation "getProperty fm f" c] u
    by (simp add: counterAt_descOf itemCounter_def propCounter_def)
  show ?case
    using fd by (simp add: u Cons.IH propCounter_setProperty algebra_simps)
qed

lemma fieldCounter_propCounter:
  "fieldCounter fm k c = propCounter (case fm of None \<Rightarrow> [] | Some f \<Rightarrow> f) k c"
  by (cases fm) (simp_all add: fieldCounter_def propCounter_def)

lemma updateTypeMetadata_counters:
  "fieldCounter (fieldMap (updateTypeMetadata h m operation node)) k c =
     fieldCounter (fieldMap m) k c +
       (if ignored m then 0
        else deltaOf operation *
          sum_list (map (\<lambda>f. if f = k then occurrences h f (valueAt node f) c else 0)
            (nodeFields node (ignoredFields m))))"
proof (cases "ignored m")
  case True
  then show ?thesis by (simp add: updateTypeMetadata_def)
next
  case False
  obtain fm b where u: "updateFields h node operation (nodeFields node (ignoredFields m))
      (case fieldMap m of None \<Rightarrow> [] | Some f \<Rightarrow> f, False) = (fm, b)"
    by (cases "updateFields h node operation (nodeFields node (ignoredFields m))
      (case fieldMap m of None \<Rightarrow> [] | Some f \<Rightarrow> f, False)") auto
  have "propCounter fm k c = propCounter (case fieldMap m of None \<Rightarrow> [] | Some f \<Rightarrow> f) k c +
       deltaOf operation *
          sum_list (map (\<lambda>f. if f = k then occurrences h f (valueAt node f) c else 0)
            (nodeFields node (ignoredFields m)))"
    using updateFields_counters [of h node operation "nodeFields node (ignoredFields m)"
        "case fieldMap m of None \<Rightarrow> [] | Some f \<Rightarrow> f" False k c] u
    by simp
  then show ?thesis
    using False by (simp add: updateTypeMetadata_def u fieldCounter_propCounter)
qed

lemma updateTypeMetadata_frame:
  "ignored (updateTypeMetadata h m operation node) = ignored m
   \<and> ignoredFields (updateTypeMetadata h m operation node) = ignoredFields m"
  by (simp add: updateTypeMetadata_def split: prod.splits)

text \<open>
  C2. For a node none of whose names is a member of \<open>Object.prototype\<close>,
  deleting the node right after adding it gives a field map in which every
  counter, at every depth, has the value it had before the add: the totals of
  all tags, and the counts of the referenced ids. For the other nodes the
  source does not do so: with the id \<open>constructor\<close> in a reference list,
  \<open>nodes[nodeId]\<close> is the inherited function, \<open>(nodes[nodeId] || 0) + delta\<close> is a
  string, and what is left under \<open>nodes.constructor\<close> after the delete is that
  string with \<open>1-1\<close> appended, not a count.
\<close>

lemma add_then_delete_restores_counters:
  assumes "ownNamesOnly h (ignoredFields m) node"
  shows "fieldCounter (fieldMap (deleteNode h (addNode h m node) node)) field c =
     fieldCounter (fieldMap m) field c"
  unfolding deleteNode_def addNode_def updateTypeMetadata_counters
  by (simp add: updateTypeMetadata_frame deltaOf_def)

subsection \<open>Examples are set once\<close>

lemma exampleAt_Nil: "exampleAt [] p = Undefined"
  by (cases p) simp_all

lemma exampleAt_descOf: "exampleAt (descOf d0) p = itemExample d0 p"
  by (cases d0) (simp_all add: descOf_def itemExample_def exampleAt_Nil)

lemma propExample_setProperty:
  "propExample (setProperty ps key d) k p = (if k = key then exampleAt d p else propExample ps k p)"
  by (simp add: propExample_def getProperty_setProperty)

lemma exampleAt_setInfo:
  "exampleAt (setInfo d t ti) p =
     (case p of
        At t' \<Rightarrow> if t' = t then example ti else exampleAt d p
      | UnderProp k p' \<Rightarrow>
          if t = TObject then propExample (case props ti of None \<Rightarrow> [] | Some ps \<Rightarrow> ps) k p'
          else exampleAt d p
      | UnderItem p' \<Rightarrow> if t = TArray then itemExample (item ti) p' else exampleAt d p)"
  by (cases p)
     (simp_all add: getInfo_setInfo propExample_def itemExample_def split: option.splits)

lemma exampleAt_infoAt:
  "exampleAt (descOf d0) p =
     (case p of
        At t \<Rightarrow> example (infoAt d0 t)
      | UnderProp k p' \<Rightarrow>
          propExample (case props (infoAt d0 TObject) of None \<Rightarrow> [] | Some ps \<Rightarrow> ps) k p'
      | UnderItem p' \<Rightarrow> itemExample (item (infoAt d0 TArray)) p')"
  by (cases p)
     (simp_all add: infoAt_def propExample_def itemExample_def split: option.splits)

lemma updateProps_examples:
  assumes "\<And>key v nodeId d0 p. (key, v) \<in> set kvs \<Longrightarrow> exampleAt (descOf d0) p \<noteq> Undefined \<Longrightarrow>
      exampleAt (fst (updateValueDescriptor h nodeId key v operation d0)) p = exampleAt (descOf d0) p"
    and "propExample ps k p \<noteq> Undefined"
  shows "propExample (fst (updateProps h nodeId operation kvs (ps, b))) k p = propExample ps k p"
  using assms
proof (induction kvs arbitrary: ps b)
  case Nil
  then show ?case by simp
next
  case (Cons kv kvs)
  obtain key v where kv: "kv = (key, v)" by (cases kv) auto
  obtain pd pb where u: "updateValueDescriptor h nodeId key v operation (getProperty ps key) = (pd, pb)"
    by (cases "updateValueDescriptor h nodeId key v operation (getProperty ps key)") auto
  have same: "propExample (setProperty ps key pd) k p = propExample ps k p"
  proof (cases "k = key")
    case True
    have old: "exampleAt (descOf (getProperty ps key)) p = propExample ps key p"
      by (simp add: exampleAt_descOf itemExample_def propExample_def)
    with Cons.prems(2) True have "exampleAt (descOf (getProperty ps key)) p \<noteq> Undefined"
      by simp
    from Cons.prems(1) [of key v "getProperty ps key" p nodeId, OF _ this]
    have "exampleAt pd p = exampleAt (descOf (getProperty ps key)) p"
      by (simp add: kv u)
    with old have "exampleAt pd p = propExample ps key p" by simp
    then show ?thesis
      using True by (simp add: propExample_setProperty)
  next
    case False
    then show ?thesis by (simp add: propExample_setProperty)
  qed
  have "propExample (fst (updateProps h nodeId operation kvs (setProperty ps key pd, b \<or> pb))) k p =
      propExample (setProperty ps key pd) k p"
    by (rule Cons.IH) (use Cons.prems same in auto)
  then show ?case
    using same by (simp add: kv u)
qed

lemma updateItems_examples:
  assumes "\<And>v nodeId d0 p. v \<in> set xs \<Longrightarrow> exampleAt (descOf d0) p \<noteq> Undefined \<Longrightarrow>
      exampleAt (fst (updateValueDescriptor h nodeId key v operation d0)) p = exampleAt (descOf d0) p"
    and "itemExample it p \<noteq> Undefined"
  shows "itemExample (fst (updateItems h nodeId key operation xs (it, b))) p = itemExample it p"
  using assms
proof (induction xs arbitrary: it b)
  case Nil
  then show ?case by simp
next
  case (Cons x xs)
  obtain xd xb where u: "updateValueDescriptor h nodeId key x operation it = (xd, xb)"
    by (cases "updateValueDescriptor h nodeId key x operation it") auto
  have "exampleAt (descOf it) p \<noteq> Undefined"
    using Cons.prems(2) by (simp add: exampleAt_descOf)
  from Cons.prems(1) [of x it p nodeId, OF _ this]
  have same: "itemExample (Some xd) p = itemExample it p"
    by (simp add: u itemExample_def exampleAt_descOf)
  have "itemExample (fst (updateItems h nodeId key operation xs (Some xd, b \<or> xb))) p =
      itemExample (Some xd) p"
    by (rule Cons.IH) (use Cons.prems same in auto)
  then show ?case
    using same by (simp add: u)
qed

lemma update_keeps_examples_null:
  assumes "getType h v key = None"
  shows "exampleAt (fst (updateValueDescriptor h nodeId key v operation d0)) p = exampleAt (descOf d0) p"
  using assms by (simp add: update_null)

lemma update_keeps_examples_scalar:
  assumes "getType h v key = Some t" "isScalar t" "exampleAt (descOf d0) p \<noteq> Undefined"
  shows "exampleAt (fst (updateValueDescriptor h nodeId key v operation d0)) p = exampleAt (descOf d0) p"
  using assms
  by (cases p)
     (auto simp add: update_scalar exampleAt_setInfo exampleAt_infoAt isScalar_def
        simp del: exampleAt.simps)

lemma update_keeps_examples_plain:
  assumes "\<And>xs. v \<noteq> Arr xs" "\<And>kvs. v \<noteq> Obj kvs" "exampleAt (descOf d0) p \<noteq> Undefined"
  shows "exampleAt (fst (updateValueDescriptor h nodeId key v operation d0)) p = exampleAt (descOf d0) p"
proof (cases "getType h v key")
  case None
  then show ?thesis by (rule update_keeps_examples_null)
next
  case (Some t)
  have "isScalar t"
    unfolding isScalar_def
    using Some assms(1,2) getType_TObject getType_TArray getType_TListOfUnion by blast
  with Some show ?thesis using assms(3) by (rule update_keeps_examples_scalar)
qed

lemma update_keeps_examples:
  "exampleAt (descOf d0) p \<noteq> Undefined \<Longrightarrow>
   exampleAt (fst (updateValueDescriptor h nodeId key v operation d0)) p = exampleAt (descOf d0) p"
proof (induction v arbitrary: nodeId key d0 p)
  case (Arr xs)
  have IH: "\<And>v nodeId d0 p. v \<in> set xs \<Longrightarrow> exampleAt (descOf d0) p \<noteq> Undefined \<Longrightarrow>
      exampleAt (fst (updateValueDescriptor h nodeId key v operation d0)) p = exampleAt (descOf d0) p"
    using Arr.IH by blast
  have "getType h (Arr xs) key = None \<or> getType h (Arr xs) key = Some TListOfUnion
      \<or> getType h (Arr xs) key = Some TArray"
    by simp
  then show ?case
  proof (elim disjE)
    assume "getType h (Arr xs) key = None"
    then show ?thesis by (rule update_keeps_examples_null)
  next
    assume list: "getType h (Arr xs) key = Some TListOfUnion"
    show ?thesis
      using Arr.prems
      by (cases p)
         (simp_all add: update_listOfUnion [OF list] exampleAt_setInfo exampleAt_infoAt
            del: exampleAt.simps getType.simps)
  next
    assume array: "getType h (Arr xs) key = Some TArray"
    show ?thesis
    proof (cases p)
      case (UnderItem p')
      have "itemExample (item (infoAt d0 TArray)) p' \<noteq> Undefined"
        using Arr.prems by (simp add: UnderItem exampleAt_infoAt del: exampleAt.simps)
      from updateItems_examples [OF IH this]
      show ?thesis
        by (simp add: UnderItem update_array [OF array] exampleAt_setInfo exampleAt_infoAt
              del: exampleAt.simps getType.simps)
    qed (simp_all add: update_array [OF array] exampleAt_setInfo exampleAt_infoAt
           del: exampleAt.simps getType.simps)
  qed
next
  case (Obj kvs)
  have IH: "\<And>k v nodeId key d0 p. (k, v) \<in> set kvs \<Longrightarrow> exampleAt (descOf d0) p \<noteq> Undefined \<Longrightarrow>
      exampleAt (fst (updateValueDescriptor h nodeId key v operation d0)) p = exampleAt (descOf d0) p"
    using Obj.IH by (metis snds.intros snd_conv)
  have "getType h (Obj kvs) key = None \<or> getType h (Obj kvs) key = Some TObject"
    by simp
  then show ?case
  proof (elim disjE)
    assume "getType h (Obj kvs) key = None"
    then show ?thesis by (rule update_keeps_examples_null)
  next
    assume object: "getType h (Obj kvs) key = Some TObject"
    show ?thesis
    proof (cases p)
      case (UnderProp k p')
      have "propExample (case props (infoAt d0 TObject) of None \<Rightarrow> [] | Some ps \<Rightarrow> ps) k p'
          \<noteq> Undefined"
        using Obj.prems by (simp add: UnderProp exampleAt_infoAt del: exampleAt.simps)
      from updateProps_examples [OF IH this]
      show ?thesis
        by (simp add: UnderProp update_object [OF object] exampleAt_setInfo exampleAt_infoAt
              del: exampleAt.simps getType.simps)
    qed (simp_all add: update_object [OF object] exampleAt_setInfo exampleAt_infoAt
           del: exampleAt.simps getType.simps)
  qed
qed (simp_all add: update_keeps_examples_plain)

lemma applyUpdates_keeps_examples:
  "exampleAt d p \<noteq> Undefined \<Longrightarrow> exampleAt (applyUpdates h d calls) p = exampleAt d p"
proof (induction calls arbitrary: d)
  case Nil
  then show ?case by (simp add: applyUpdates_def)
next
  case (Cons c calls)
  obtain nodeId key v operation where c: "c = (nodeId, key, v, operation)"
    by (cases c) auto
  let ?d = "fst (updateValueDescriptor h nodeId key v operation (Some d))"
  have one: "exampleAt ?d p = exampleAt d p"
    using update_keeps_examples [of "Some d" p h nodeId key v operation] Cons.prems
    by (simp add: descOf_def)
  with Cons.prems have "exampleAt ?d p \<noteq> Undefined" by simp
  from Cons.IH [OF this] one have "exampleAt (applyUpdates h ?d calls) p = exampleAt d p"
    by simp
  then show ?case by (simp add: applyUpdates_def c)
qed

text \<open>
  C8. Once the \<open>example\<close> of a type-info is set, at any depth of a descriptor
  (a tag of the descriptor, of the descriptor of a property, of the item of an
  array, and so on), no sequence of \<open>updateValueDescriptor\<close> calls on the
  descriptor, adding or deleting any values, changes it; and the first value of
  a scalar tag observed where the example is not yet set becomes the example,
  and stays.
\<close>

theorem example_set_once:
  "(exampleAt d p \<noteq> Undefined \<longrightarrow> exampleAt (applyUpdates h d calls) p = exampleAt d p)
   \<and> (getType h v key = Some t \<and> isScalar t \<and> example (infoAt d0 t) = Undefined \<longrightarrow>
        exampleAt (applyUpdates h
          (fst (updateValueDescriptor h nodeId key v operation d0)) calls) (At t) = v)"
proof (intro conjI impI)
  assume "exampleAt d p \<noteq> Undefined"
  then show "exampleAt (applyUpdates h d calls) p = exampleAt d p"
    by (rule applyUpdates_keeps_examples)
next
  assume a: "getType h v key = Some t \<and> isScalar t \<and> example (infoAt d0 t) = Undefined"
  let ?d = "fst (updateValueDescriptor h nodeId key v operation d0)"
  have v: "v \<noteq> Undefined" using a by auto
  have first: "exampleAt ?d (At t) = v"
    using a by (simp add: update_scalar getInfo_setInfo)
  with v have "exampleAt ?d (At t) \<noteq> Undefined" by simp
  from applyUpdates_keeps_examples [OF this] first
  show "exampleAt (applyUpdates h ?d calls) (At t) = v"
    by simp
qed

text \<open>
  The record \<open>{a: 1, b: ["x"]}\<close> is added under \<open>foo\<close>; then \<open>{a: 2, b: ["y"]}\<close>
  is added and the first record deleted: the examples of \<open>a\<close> and of the items
  of \<open>b\<close> are still 1 and \<open>x\<close>.
\<close>

theorem example_set_once_witness:
  "exampleAt (fst (updateValueDescriptor plainHost (Some ''1'') ''foo''
       (Obj [(''a'', Number (Finite 1)), (''b'', Arr [Str ''x''])]) Add None))
     (UnderProp ''a'' (At TInt)) = Number (Finite 1)
   \<and> exampleAt (applyUpdates plainHost
       (fst (updateValueDescriptor plainHost (Some ''1'') ''foo''
          (Obj [(''a'', Number (Finite 1)), (''b'', Arr [Str ''x''])]) Add None))
       [(Some ''2'', ''foo'', Obj [(''a'', Number (Finite 2)), (''b'', Arr [Str ''y''])], Add),
        (Some ''1'', ''foo'', Obj [(''a'', Number (Finite 1)), (''b'', Arr [Str ''x''])], Del)])
     (UnderProp ''a'' (At TInt)) = Number (Finite 1)
   \<and> exampleAt (fst (updateValueDescriptor plainHost (Some ''1'') ''foo''
       (Obj [(''a'', Number (Finite 1)), (''b'', Arr [Str ''x''])]) Add None))
     (UnderProp ''b'' (UnderItem (At TString))) = Str ''x''
   \<and> exampleAt (applyUpdates plainHost
       (fst (updateValueDescriptor plainHost (Some ''1'') ''foo''
          (Obj [(''a'', Number (Finite 1)), (''b'', Arr [Str ''x''])]) Add None))
       [(Some ''2'', ''foo'', Obj [(''a'', Number (Finite 2)), (''b'', Arr [Str ''y''])], Add),
        (Some ''1'', ''foo'', Obj [(''a'', Number (Finite 1)), (''b'', Arr [Str ''x''])], Del)])
     (UnderProp ''b'' (UnderItem (At TString))) = Str ''x''
   \<and> getType plainHost (Number (Finite 3)) ''foo'' = Some TInt
   \<and> isScalar TInt
   \<and> example (infoAt None TInt) = Undefined
   \<and> exampleAt (applyUpdates plainHost
       (fst (updateValueDescriptor plainHost (Some ''1'') ''foo'' (Number (Finite 3)) Add None))
       [(Some ''2'', ''foo'', Number (Finite 7), Add),
        (Some ''1'', ''foo'', Number (Finite 3), Del)])
     (At TInt) = Number (Finite 3)"
proof -
  let ?d = "fst (updateValueDescriptor plainHost (Some ''1'') ''foo''
       (Obj [(''a'', Number (Finite 1)), (''b'', Arr [Str ''x''])]) Add None)"
  let ?calls = "[(Some ''2'', ''foo'', Obj [(''a'', Number (Finite 2)), (''b'', Arr [Str ''y''])], Add),
        (Some ''1'', ''foo'', Obj [(''a'', Number (Finite 1)), (''b'', Arr [Str ''x''])], Del)]"
  have d: "?d = [(TObject, TypeInfo 1 (Some ''1'') Undefined None
      (Some [(''a'', [(TInt, TypeInfo 1 (Some ''1'') (Number (Finite 1)) None None None None)]),
             (''b'', [(TArray, TypeInfo 1 (Some ''1'') Undefined None None
                 (Some [(TString, TypeInfo 1 (Some ''1'') (Str ''x'') None None None None)])
                 None)])])
      None None)]"
    by (simp add: updateValueDescriptor.simps Let_def is32BitInteger_Finite setProperty_def
          arrayIndex_def isDigit_def orElse_def plainHost_def del: is32BitInteger.simps)
  have a: "exampleAt ?d (UnderProp ''a'' (At TInt)) = Number (Finite 1)"
    and b: "exampleAt ?d (UnderProp ''b'' (UnderItem (At TString))) = Str ''x''"
    unfolding d by simp_all
  have scalar: "getType plainHost (Number (Finite 3)) ''foo'' = Some TInt" "isScalar TInt"
    "example (infoAt None TInt) = Undefined"
    by (simp_all add: isScalar_def infoAt_def descOf_def is32BitInteger_Finite
          del: is32BitInteger.simps)
  show ?thesis
    using a b scalar
      example_set_once [where d = ?d and p = "UnderProp ''a'' (At TInt)" and h = plainHost
        and calls = ?calls and v = "Number (Finite 3)" and key = "''foo''" and t = TInt
        and ?d0.0 = None and nodeId = "Some ''1''" and operation = Add]
      example_set_once [where d = ?d and p = "UnderProp ''b'' (UnderItem (At TString))"
        and h = plainHost and calls = ?calls and v = "Number (Finite 3)" and key = "''foo''"
        and t = TInt and ?d0.0 = None and nodeId = "Some ''1''" and operation = Add]
      example_set_once [where d = "[]" and p = "At TInt" and h = plainHost
        and calls = "[(Some ''2'', ''foo'', Number (Finite 7), Add),
            (Some ''1'', ''foo'', Number (Finite 3), Del)]"
        and v = "Number (Finite 3)" and key = "''foo''"
        and t = TInt and ?d0.0 = None and nodeId = "Some ''1''" and operation = Add]
    by simp
qed

subsection \<open>The sticky ignore flag\<close>

lemma applyCalls_ignored: "ignored m \<Longrightarrow> applyCalls h m calls = m"
  unfolding applyCalls_def
  by (induction calls arbitrary: m)
     (auto simp add: addNode_def deleteNode_def updateTypeMetadata_def
        split: operation.splits prod.splits)

text \<open>
  C6. After \<open>ignore(m, true)\<close>, every sequence of \<open>addNode\<close> and \<open>deleteNode\<close>
  calls returns the metadata as \<open>ignore\<close> left it: \<open>fieldMap\<close> and \<open>dirty\<close> are
  those of \<open>m\<close>, and the flag is still set.
\<close>

theorem ignore_is_sticky:
  "applyCalls h (ignore m True) calls = ignore m True
   \<and> addNode h (ignore m True) n = ignore m True
   \<and> deleteNode h (ignore m True) n = ignore m True
   \<and> fieldMap (applyCalls h (ignore m True) calls) = fieldMap m
   \<and> dirty (applyCalls h (ignore m True) calls) = dirty m
   \<and> ignored (applyCalls h (ignore m True) calls)"
proof -
  have ign: "ignored (ignore m True)"
    by (simp add: ignore_def)
  have calls: "applyCalls h (ignore m True) calls = ignore m True"
    using ign by (rule applyCalls_ignored)
  have one: "addNode h (ignore m True) n = ignore m True"
    "deleteNode h (ignore m True) n = ignore m True"
    using ign by (simp_all add: addNode_def deleteNode_def updateTypeMetadata_def)
  show ?thesis
    unfolding calls one by (simp add: ignore_def)
qed

end
